theory Spec2Isabelle
  imports Complex_Main "HOL-Library.Char_ord" "HOL-Library.List_Lexorder"
    "HOL-Library.Sublist" "HOL-Library.Multiset"
begin

section \<open>Fee and VWAP engine (fees.py)\<close>

text \<open>
  Python floats are modelled as \<^typ>\<open>real\<close>: every statement below is over exact
  arithmetic. A field of an order-book level is the outcome of \<^verbatim>\<open>float(field)\<close>:
  \<open>Some x\<close> when the conversion succeeds and \<open>None\<close> when it raises (the
  \<^verbatim>\<open>try/except\<close> of the loop body then skips the level).
\<close>

type_synonym level = "real option list"

definition fill_tolerance :: real where
  "fill_tolerance = 1 / 10 ^ 12"

text \<open>
  The \<^verbatim>\<open>for level in levels\<close> loop of \<^verbatim>\<open>compute_vwap_for_amount\<close>, with its three
  accumulators; \<^verbatim>\<open>continue\<close> is the recursive call with the accumulators unchanged and
  \<^verbatim>\<open>break\<close> returns them.
\<close>

fun vwap_loop :: "level list \<Rightarrow> real \<Rightarrow> real \<Rightarrow> real \<Rightarrow> real \<times> real" where
  "vwap_loop [] remaining total_quote filled = (total_quote, filled)"
| "vwap_loop (level # rest) remaining total_quote filled =
     (if length level < 2 then vwap_loop rest remaining total_quote filled
      else (case (level ! 0, level ! 1) of
              (Some price, Some amount) \<Rightarrow>
                (if amount \<le> 0 \<or> price \<le> 0 then vwap_loop rest remaining total_quote filled
                 else (let take = min remaining amount;
                           total_quote' = total_quote + take * price;
                           remaining' = remaining - take;
                           filled' = filled + take
                       in if remaining' \<le> fill_tolerance then (total_quote', filled')
                          else vwap_loop rest remaining' total_quote' filled'))
            | _ \<Rightarrow> vwap_loop rest remaining total_quote filled))"

definition compute_vwap_for_amount :: "string \<Rightarrow> level list \<Rightarrow> real \<Rightarrow> (real \<times> real) option" where
  "compute_vwap_for_amount side levels amount_base =
     (if amount_base \<le> 0 then None
      else (case vwap_loop levels amount_base 0 0 of
              (total_quote, filled) \<Rightarrow>
                if filled \<le> 0 then None else Some (total_quote / filled, filled)))"

definition estimate_fee_aware_profit_pct ::
  "real \<Rightarrow> real \<Rightarrow> real \<Rightarrow> real \<Rightarrow> real \<Rightarrow> real \<Rightarrow> real" where
  "estimate_fee_aware_profit_pct buy_price sell_price base_amount taker_fee_buy taker_fee_sell
       withdraw_fee_base =
     (let cost_quote = base_amount * buy_price;
          cost_quote_with_fee = cost_quote * (1 + taker_fee_buy);
          base_after_withdraw = max 0 (base_amount - withdraw_fee_base);
          revenue_quote = base_after_withdraw * sell_price;
          revenue_quote_after_fee = revenue_quote * (1 - taker_fee_sell)
      in if cost_quote_with_fee \<le> 0 then - 100
         else (revenue_quote_after_fee - cost_quote_with_fee) / cost_quote_with_fee * 100)"

subsection \<open>The fill described level by level\<close>

text \<open>
  The well-formed levels of a book side, as (price, amount) pairs in book order: at least
  two fields, both numeric, both positive.
\<close>

fun valid_levels :: "level list \<Rightarrow> (real \<times> real) list" where
  "valid_levels [] = []"
| "valid_levels (level # rest) =
     (if length level < 2 then valid_levels rest
      else (case (level ! 0, level ! 1) of
              (Some price, Some amount) \<Rightarrow>
                (if 0 < amount \<and> 0 < price then (price, amount) # valid_levels rest
                 else valid_levels rest)
            | _ \<Rightarrow> valid_levels rest))"

text \<open>
  The amounts taken from a list of level amounts: \<open>min remaining amount\<close> from each level
  in turn. \<open>greedy_takes\<close> visits every level; \<open>takes_until\<close> stops after the first level
  that leaves at most the fill tolerance unfilled.
\<close>

fun greedy_takes :: "real list \<Rightarrow> real \<Rightarrow> real list" where
  "greedy_takes [] remaining = []"
| "greedy_takes (amount # rest) remaining =
     (let take = min remaining amount in take # greedy_takes rest (remaining - take))"

fun takes_until :: "real list \<Rightarrow> real \<Rightarrow> real list" where
  "takes_until [] remaining = []"
| "takes_until (amount # rest) remaining =
     (let take = min remaining amount
      in if remaining - take \<le> fill_tolerance then [take]
         else take # takes_until rest (remaining - take))"

definition quote_of :: "real list \<Rightarrow> (real \<times> real) list \<Rightarrow> real" where
  "quote_of takes vs = sum_list (map2 (*) takes (map fst vs))"

definition vwap_every_level :: "level list \<Rightarrow> real \<Rightarrow> (real \<times> real) option" where
  "vwap_every_level levels amount_base =
     (if amount_base \<le> 0 then None
      else (let vs = valid_levels levels;
                takes = greedy_takes (map snd vs) amount_base;
                filled = sum_list takes
            in if filled \<le> 0 then None else Some (quote_of takes vs / filled, filled)))"

definition vwap_until_filled :: "level list \<Rightarrow> real \<Rightarrow> (real \<times> real) option" where
  "vwap_until_filled levels amount_base =
     (if amount_base \<le> 0 then None
      else (let vs = valid_levels levels;
                takes = takes_until (map snd vs) amount_base;
                filled = sum_list takes
            in if filled \<le> 0 then None else Some (quote_of takes vs / filled, filled)))"

section \<open>Exchange connector layer (exchanges/ccxt_client.py)\<close>

subsection \<open>Order books with a fallback ladder\<close>

text \<open>
  The exchange library is outside the repository. A call of
  \<^verbatim>\<open>exchange.fetch_order_book(symbol, limit=...)\<close> either returns a book or raises; the
  model takes the library as a function of the number of calls made so far, the symbol
  and the depth limit (\<open>None\<close> when the call passes no limit), with \<open>Inl msg\<close> for an
  exception whose text is \<open>msg\<close>. The call counter lets a retry with the same arguments
  end differently. The Python operator \<^verbatim>\<open>x in msg\<close> on strings is \<^const>\<open>sublist\<close>.
\<close>

type_synonym 'b fetcher = "nat \<Rightarrow> string \<Rightarrow> int option \<Rightarrow> string + 'b"

definition fallback_candidates :: "string \<Rightarrow> string \<Rightarrow> int option list" where
  "fallback_candidates exchange_id msg =
     (if exchange_id \<in> set [''kucoin'', ''kucoinfutures''] then [Some 20, Some 100]
      else if sublist ''limit'' msg
              \<and> list_ex (\<lambda>x. sublist x msg) [''20'', ''50'', ''100'', ''500'', ''1000'']
           then [Some 20, Some 50, Some 100]
      else [None])"

fun try_candidates :: "'b fetcher \<Rightarrow> string \<Rightarrow> nat \<Rightarrow> int option list \<Rightarrow> 'b option" where
  "try_candidates fetch_order_book symbol n [] = None"
| "try_candidates fetch_order_book symbol n (cand # rest) =
     (case fetch_order_book n symbol cand of
        Inr book \<Rightarrow> Some book
      | Inl _ \<Rightarrow> try_candidates fetch_order_book symbol (Suc n) rest)"

definition fetch_order_book_safe :: "'b fetcher \<Rightarrow> string \<Rightarrow> string \<Rightarrow> int \<Rightarrow> 'b option" where
  "fetch_order_book_safe fetch_order_book exchange_id symbol limit =
     (case fetch_order_book 0 symbol (Some limit) of
        Inr book \<Rightarrow> Some book
      | Inl msg \<Rightarrow>
          try_candidates fetch_order_book symbol 1 (fallback_candidates exchange_id msg))"

text \<open>
  The ladder in the words of the specification: two known depth-limited exchanges, then an
  error text that mentions "limit" together with one of the known limit values, then a
  single fetch without a depth.
\<close>

definition claimed_ladder :: "string \<Rightarrow> string \<Rightarrow> int option list" where
  "claimed_ladder exchange_id msg =
     (if exchange_id = ''kucoin'' \<or> exchange_id = ''kucoinfutures'' then [Some 20, Some 100]
      else if sublist ''limit'' msg
              \<and> (sublist ''20'' msg \<or> sublist ''50'' msg \<or> sublist ''100'' msg
                  \<or> sublist ''500'' msg \<or> sublist ''1000'' msg)
           then [Some 20, Some 50, Some 100]
      else [None])"

text \<open>An exchange whose first two calls fail and whose third call returns a book.\<close>

definition flaky :: "nat fetcher" where
  "flaky n s depth = (if n < 2 then Inl ''limit must be 20 or 100'' else Inr n)"

subsection \<open>Markets and common symbols\<close>

text \<open>
  A market is the dictionary built by \<^verbatim>\<open>load_all_markets\<close>, with its five keys
  \<^verbatim>\<open>symbol\<close>, \<^verbatim>\<open>base\<close>, \<^verbatim>\<open>quote\<close>, \<^verbatim>\<open>taker\<close> and \<^verbatim>\<open>active\<close> as the fields \<open>m_symbol\<close> to
  \<open>m_active\<close>. Strings are
  byte strings; \<^verbatim>\<open>str.upper\<close> is modelled on ASCII letters, which is what asset codes are
  made of, and the order of strings is the lexicographic order of their characters.
\<close>

record market =
  m_symbol :: string
  m_base :: string
  m_quote :: string
  m_taker :: real
  m_active :: bool

definition upper_char :: "char \<Rightarrow> char" where
  "upper_char c =
     (if CHR ''a'' \<le> c \<and> c \<le> CHR ''z'' then char_of (of_char c - (32::nat)) else c)"

definition upper :: "string \<Rightarrow> string" where
  "upper s = map upper_char s"

text \<open>\<^verbatim>\<open>s.split(sep)\<close> for a one-character separator: always at least one field.\<close>

fun split_on :: "char \<Rightarrow> string \<Rightarrow> string list" where
  "split_on sep [] = [[]]"
| "split_on sep (c # cs) =
     (if c = sep then [] # split_on sep cs
      else (case split_on sep cs of
              w # ws \<Rightarrow> (c # w) # ws
            | [] \<Rightarrow> [[c]]))"

text \<open>
  The set comprehension \<^verbatim>\<open>{(m["base"], m["quote"]) for m in markets if m.get("active", True)}\<close>
  as a duplicate-free list. The order in which Python iterates over the intersection does
  not reach the result, because the list of symbols is sorted before it is returned.
\<close>

definition active_pairs :: "market list \<Rightarrow> (string \<times> string) list" where
  "active_pairs markets = remdups (map (\<lambda>m. (m_base m, m_quote m)) (filter m_active markets))"

definition render_symbol :: "string \<times> string \<Rightarrow> string" where
  "render_symbol p = fst p @ ''/'' @ snd p"

definition find_common_symbols ::
  "market list \<Rightarrow> market list \<Rightarrow> string list option \<Rightarrow> string list" where
  "find_common_symbols markets_a markets_b preferred_quotes =
     (let set_a = active_pairs markets_a;
          set_b = active_pairs markets_b;
          common = filter (\<lambda>p. p \<in> set set_b) set_a;
          symbols = map render_symbol common;
          symbols' =
            (case preferred_quotes of
               None \<Rightarrow> symbols
             | Some pq \<Rightarrow>
                 if pq = [] then symbols
                 else (let quotes = map upper pq
                       in filter (\<lambda>s. upper (split_on CHR ''/'' s ! 1) \<in> set quotes) symbols))
      in sort symbols')"

text \<open>
  The specification's reading of the result: a pair is common when an active market of
  each list has that base and quote, and a quote is preferred when no preference is given
  or some preferred quote equals it up to case. \<open>no_slash\<close> says that no asset code of an
  active market contains the separator.
\<close>

definition no_slash :: "market list \<Rightarrow> bool" where
  "no_slash ms \<longleftrightarrow>
     (\<forall>m\<in>set ms. m_active m \<longrightarrow> CHR ''/'' \<notin> set (m_base m) \<and> CHR ''/'' \<notin> set (m_quote m))"

definition quote_preferred :: "string list option \<Rightarrow> string \<Rightarrow> bool" where
  "quote_preferred preferred_quotes q \<longleftrightarrow>
     (case preferred_quotes of
        None \<Rightarrow> True
      | Some pq \<Rightarrow> pq = [] \<or> (\<exists>p\<in>set pq. upper p = upper q))"

definition common_pair :: "market list \<Rightarrow> market list \<Rightarrow> string \<Rightarrow> string \<Rightarrow> bool" where
  "common_pair markets_a markets_b b q \<longleftrightarrow>
     (\<exists>m\<in>set markets_a. m_active m \<and> m_base m = b \<and> m_quote m = q)
     \<and> (\<exists>m\<in>set markets_b. m_active m \<and> m_base m = b \<and> m_quote m = q)"

text \<open>An active market with a taker fee of 0.1 percent, for the examples.\<close>

definition mk :: "string \<Rightarrow> string \<Rightarrow> market" where
  "mk b q = \<lparr>m_symbol = b @ ''/'' @ q, m_base = b, m_quote = q, m_taker = 1 / 1000, m_active = True\<rparr>"

subsection \<open>The cheapest common withdrawal network\<close>

text \<open>
  A dictionary from network names to fees is an association list read with
  \<^const>\<open>map_of\<close>; the result of \<^verbatim>\<open>_extract_currency_network_fees\<close> maps a currency code to
  such a dictionary. \<^verbatim>\<open>min(common_networks, key=...)\<close> returns the first element with the
  least key in the iteration order of the set \<^verbatim>\<open>common_networks\<close>; that order is not
  fixed by the language, so it is the parameter \<open>set_order\<close>, which lists the elements of
  the set it is given. The key uses \<^verbatim>\<open>float("inf")\<close> as a default, so keys are reals
  extended by infinity.
\<close>

type_synonym network_fees = "(string \<times> real) list"

datatype fee_key = Fin real | PosInf

fun key_add :: "fee_key \<Rightarrow> real \<Rightarrow> fee_key" where
  "key_add (Fin x) y = Fin (x + y)"
| "key_add PosInf y = PosInf"

fun key_less :: "fee_key \<Rightarrow> fee_key \<Rightarrow> bool" where
  "key_less (Fin x) (Fin y) = (x < y)"
| "key_less (Fin x) PosInf = True"
| "key_less PosInf k = False"

fun min_by_key :: "('a \<Rightarrow> fee_key) \<Rightarrow> 'a \<Rightarrow> 'a list \<Rightarrow> 'a" where
  "min_by_key key best [] = best"
| "min_by_key key best (x # xs) =
     (if key_less (key x) (key best) then min_by_key key x xs else min_by_key key best xs)"

definition network_key :: "network_fees \<Rightarrow> network_fees \<Rightarrow> string \<Rightarrow> fee_key" where
  "network_key a b n =
     key_add (case map_of a n of Some fee \<Rightarrow> Fin fee | None \<Rightarrow> PosInf)
             (case map_of b n of Some fee \<Rightarrow> fee | None \<Rightarrow> 0)"

text \<open>\<^verbatim>\<open>fees.get(currency_code) or {}\<close>: the empty dictionary for a currency that is absent.\<close>

definition currency_fees :: "(string \<rightharpoonup> network_fees) \<Rightarrow> string \<Rightarrow> network_fees" where
  "currency_fees fees currency_code = (case fees currency_code of Some d \<Rightarrow> d | None \<Rightarrow> [])"

definition find_cheapest_common_network_fee ::
  "(string list \<Rightarrow> string list) \<Rightarrow> (string \<rightharpoonup> network_fees) \<Rightarrow> (string \<rightharpoonup> network_fees)
     \<Rightarrow> string \<Rightarrow> (string \<times> real) option" where
  "find_cheapest_common_network_fee set_order fees_a fees_b currency_code =
     (let a = currency_fees fees_a currency_code;
          b = currency_fees fees_b currency_code
      in if a = [] \<or> b = [] then None
         else (case set_order (filter (\<lambda>n. n \<in> set (map fst b)) (remdups (map fst a))) of
                 [] \<Rightarrow> None
               | n # ns \<Rightarrow>
                   (let best_network = min_by_key (network_key a b) n ns
                    in case map_of a best_network of
                         Some fee \<Rightarrow> Some (best_network, fee)
                       | None \<Rightarrow> None)))"

section \<open>Key/value cache (cache.py)\<close>







section \<open>Scanner (scanner.py)\<close>

text \<open>
  \<^verbatim>\<open>scan_two_exchanges\<close> is modelled from the point where the markets and the order books
  have been fetched: they are inputs, as are the two exchanges' currency fee maps that
  \<^verbatim>\<open>find_cheapest_common_network_fee\<close> reads. An order book is the pair of its
  \<^verbatim>\<open>asks\<close> and \<^verbatim>\<open>bids\<close> (\<^verbatim>\<open>ob.get("asks") or []\<close>); a symbol without a book, or with the
  book \<^verbatim>\<open>None\<close>, is absent from the map. An exception that the loop body does not catch
  ends the scan, so the scan returns an error or a result.
\<close>

datatype py_error =
  IndexError | KeyError | ValueError | FloatConversionError | ZeroDivisionError

record order_book =
  asks :: "level list"
  bids :: "level list"

record Opportunity =
  symbol :: string
  buy_exchange :: string
  sell_exchange :: string
  profit_pct :: real
  base_amount :: real
  buy_price :: real
  sell_price :: real
  network :: "string option"

record settings =
  min_profit_pct :: real
  min_notional_usd :: real
  preferred_quotes :: "string list"

record scan_env =
  ex_a_id :: string
  ex_b_id :: string
  e_markets_a :: "market list"
  e_markets_b :: "market list"
  e_books_a :: "string \<rightharpoonup> order_book"
  e_books_b :: "string \<rightharpoonup> order_book"
  e_fees_a :: "string \<rightharpoonup> network_fees"
  e_fees_b :: "string \<rightharpoonup> network_fees"
  e_set_order :: "string list \<Rightarrow> string list"
  cfg :: settings

datatype direction = AtoB | BtoA

text \<open>
  The state of the loop over the symbols: the two local variables \<^verbatim>\<open>network_fee_cache\<close>
  and \<^verbatim>\<open>opportunities\<close>, the log of the calls of \<^verbatim>\<open>find_cheapest_common_network_fee\<close>
  (each call is a request to both exchanges), and a history variable \<open>evaluated\<close> that
  keeps, with its direction, every Opportunity whose profit was computed, whether it
  was recorded or not. The history variable is never read by the loop.
\<close>

record scan_state =
  network_fee_cache :: "string \<rightharpoonup> string option \<times> real"
  opportunities :: "Opportunity list"
  fee_lookups :: "(direction \<times> string) list"
  evaluated :: "(direction \<times> Opportunity) list"

definition initial_state :: scan_state where
  "initial_state =
     \<lparr>network_fee_cache = Map.empty, opportunities = [], fee_lookups = [], evaluated = []\<rparr>"

definition get_taker_fee_for_market :: "string \<Rightarrow> market \<Rightarrow> real" where
  "get_taker_fee_for_market exchange_id m =
     (let rate = m_taker m;
          rate = (if rate < 0 then 0 else rate);
          rate = (if rate > 2 / 100 then 2 / 100 else rate)
      in rate)"

text \<open>\<^verbatim>\<open>{m["symbol"]: m for m in markets}\<close>: a later market replaces an earlier one.\<close>

definition index_markets :: "market list \<Rightarrow> (string \<rightharpoonup> market)" where
  "index_markets ms = map_of (rev (map (\<lambda>m. (m_symbol m, m)) ms))"

text \<open>\<^verbatim>\<open>(net[0], net[1]) if net else (None, 0.0)\<close>\<close>

definition fee_entry :: "(string \<times> real) option \<Rightarrow> string option \<times> real" where
  "fee_entry net = (case net of Some (n, fee) \<Rightarrow> (Some n, fee) | None \<Rightarrow> (None, 0))"

text \<open>
  The memoized lookup, written twice in the source (once per direction, with the exchanges
  swapped): a call only when the base asset has no cache entry, then the entry is read.
\<close>

definition lookup_network_fee ::
  "scan_env \<Rightarrow> direction \<Rightarrow> string \<Rightarrow> scan_state \<Rightarrow> scan_state \<times> (string option \<times> real)" where
  "lookup_network_fee env d base st =
     (case network_fee_cache st base of
        Some entry \<Rightarrow> (st, entry)
      | None \<Rightarrow>
          (let net = (case d of
                        AtoB \<Rightarrow> find_cheapest_common_network_fee (e_set_order env)
                                  (e_fees_a env) (e_fees_b env) base
                      | BtoA \<Rightarrow> find_cheapest_common_network_fee (e_set_order env)
                                  (e_fees_b env) (e_fees_a env) base);
               entry = fee_entry net
           in (st\<lparr>network_fee_cache := (network_fee_cache st)(base \<mapsto> entry),
                  fee_lookups := fee_lookups st @ [(d, base)]\<rparr>, entry)))"

text \<open>
  The sizing of one direction, also written twice in the source: the trial amount from the
  top ask, then the two fills. \<^verbatim>\<open>best_ask[0][0]\<close> raises on an empty first level,
  \<^verbatim>\<open>float(top_ask)\<close> on a field that is not numeric, and the division on a zero price.
\<close>

definition size_and_fill ::
  "real \<Rightarrow> level list \<Rightarrow> level list \<Rightarrow> py_error + ((real \<times> real) \<times> (real \<times> real)) option" where
  "size_and_fill target_quote best_ask best_bid =
     (case best_ask of
        [] \<Rightarrow> Inl IndexError
      | [] # _ \<Rightarrow> Inl IndexError
      | (None # _) # _ \<Rightarrow> Inl FloatConversionError
      | (Some top_ask # _) # _ \<Rightarrow>
          if top_ask = 0 then Inl ZeroDivisionError
          else (let est_base_amount = max (1 / 10 ^ 6) (target_quote / top_ask)
                in case (compute_vwap_for_amount ''buy'' best_ask est_base_amount,
                         compute_vwap_for_amount ''sell'' best_bid est_base_amount) of
                     (Some buy_vwap, Some sell_vwap) \<Rightarrow> Inr (Some (buy_vwap, sell_vwap))
                   | _ \<Rightarrow> Inr None))"

text \<open>
  The end of each direction: the fee lookup, the profit, and the Opportunity, appended
  when the profit reaches the configured minimum.
\<close>

definition evaluate_and_record ::
  "scan_env \<Rightarrow> direction \<Rightarrow> string \<Rightarrow> string \<Rightarrow> real \<Rightarrow> real \<Rightarrow> real \<Rightarrow> real \<Rightarrow> real
     \<Rightarrow> scan_state \<Rightarrow> scan_state" where
  "evaluate_and_record env d symb base buy_avg sell_avg amount taker_buy taker_sell st =
     (case lookup_network_fee env d base st of
        (st1, (network_name, withdraw_fee_base)) \<Rightarrow>
          (let profit = estimate_fee_aware_profit_pct buy_avg sell_avg amount taker_buy taker_sell
                          withdraw_fee_base;
               opp = \<lparr>symbol = symb,
                      buy_exchange = (case d of AtoB \<Rightarrow> ex_a_id env | BtoA \<Rightarrow> ex_b_id env),
                      sell_exchange = (case d of AtoB \<Rightarrow> ex_b_id env | BtoA \<Rightarrow> ex_a_id env),
                      profit_pct = profit, base_amount = amount, buy_price = buy_avg,
                      sell_price = sell_avg, network = network_name\<rparr>;
               st2 = st1\<lparr>evaluated := evaluated st1 @ [(d, opp)]\<rparr>
           in if profit \<ge> min_profit_pct (cfg env)
              then st2\<lparr>opportunities := opportunities st2 @ [opp]\<rparr>
              else st2))"

definition reverse_direction ::
  "scan_env \<Rightarrow> string \<Rightarrow> string \<Rightarrow> order_book \<Rightarrow> order_book \<Rightarrow> real \<Rightarrow> real \<Rightarrow> scan_state
     \<Rightarrow> py_error + scan_state" where
  "reverse_direction env symb base ob_a ob_b taker_a taker_b st =
     (let best_ask_b = asks ob_b; best_bid_a = bids ob_a
      in if best_ask_b \<noteq> [] \<and> best_bid_a \<noteq> []
         then (case size_and_fill (min_notional_usd (cfg env)) best_ask_b best_bid_a of
                 Inl e \<Rightarrow> Inl e
               | Inr None \<Rightarrow> Inr st
               | Inr (Some ((buy_avg_b, buy_filled_b), (sell_avg_a, sell_filled_a))) \<Rightarrow>
                   Inr (evaluate_and_record env BtoA symb base buy_avg_b sell_avg_a
                          (min buy_filled_b sell_filled_a) taker_b taker_a st))
         else Inr st)"

text \<open>
  The body of \<^verbatim>\<open>for sym in symbols\<close> (the loop variable is \<open>symb\<close> here), in two
  parts: the checks up to the taker fees, then the forward direction, which ends in the
  reverse direction. \<^verbatim>\<open>continue\<close> returns the state unchanged.
\<close>

definition forward_direction ::
  "scan_env \<Rightarrow> string \<Rightarrow> string \<Rightarrow> order_book \<Rightarrow> order_book \<Rightarrow> real \<Rightarrow> real \<Rightarrow> scan_state
     \<Rightarrow> py_error + scan_state" where
  "forward_direction env symb base ob_a ob_b taker_a taker_b st =
     (let best_ask = asks ob_a; best_bid = bids ob_b
      in if best_ask = [] \<or> best_bid = [] then Inr st
         else (case size_and_fill (min_notional_usd (cfg env)) best_ask best_bid of
                 Inl e \<Rightarrow> Inl e
               | Inr None \<Rightarrow> Inr st
               | Inr (Some ((buy_avg, buy_filled), (sell_avg, sell_filled))) \<Rightarrow>
                   if min buy_filled sell_filled \<le> 0 then Inr st
                   else reverse_direction env symb base ob_a ob_b taker_a taker_b
                          (evaluate_and_record env AtoB symb base buy_avg sell_avg
                             (min buy_filled sell_filled) taker_a taker_b st)))"

definition scan_symbol :: "scan_env \<Rightarrow> scan_state \<Rightarrow> string \<Rightarrow> py_error + scan_state" where
  "scan_symbol env st symb =
     (case (e_books_a env symb, e_books_b env symb) of
        (Some ob_a, Some ob_b) \<Rightarrow>
          (case split_on CHR ''/'' symb of
             [base, quote] \<Rightarrow>
               if upper quote \<notin> set (map upper (preferred_quotes (cfg env))) then Inr st
               else (case index_markets (e_markets_a env) symb of
                       None \<Rightarrow> Inl KeyError
                     | Some ma \<Rightarrow>
                         (case index_markets (e_markets_b env) symb of
                            None \<Rightarrow> Inl KeyError
                          | Some mb \<Rightarrow>
                              forward_direction env symb base ob_a ob_b
                                (get_taker_fee_for_market (ex_a_id env) ma)
                                (get_taker_fee_for_market (ex_b_id env) mb) st))
           | _ \<Rightarrow> Inl ValueError)
      | _ \<Rightarrow> Inr st)"

fun scan_loop :: "scan_env \<Rightarrow> scan_state \<Rightarrow> string list \<Rightarrow> py_error + scan_state" where
  "scan_loop env st [] = Inr st"
| "scan_loop env st (symb # rest) =
     (case scan_symbol env st symb of
        Inl e \<Rightarrow> Inl e
      | Inr st' \<Rightarrow> scan_loop env st' rest)"

text \<open>
  One scan pass, up to the state after the loop, and the function itself, which returns
  the recorded opportunities sorted by \<^verbatim>\<open>key=lambda o: o.profit_pct, reverse=True\<close>: a
  stable sort on the negated profit.
\<close>

definition scan_pass :: "scan_env \<Rightarrow> py_error + scan_state" where
  "scan_pass env =
     scan_loop env initial_state
       (find_common_symbols (e_markets_a env) (e_markets_b env) (Some (preferred_quotes (cfg env))))"

definition scan_two_exchanges :: "scan_env \<Rightarrow> py_error + Opportunity list" where
  "scan_two_exchanges env =
     (let symbols = find_common_symbols (e_markets_a env) (e_markets_b env)
                      (Some (preferred_quotes (cfg env)))
      in if symbols = [] then Inr []
         else (case scan_loop env initial_state symbols of
                 Inl e \<Rightarrow> Inl e
               | Inr st \<Rightarrow> Inr (sort_key (\<lambda>opp. - profit_pct opp) (opportunities st))))"

subsection \<open>What a scan pass maintains\<close>

text \<open>
  The cache entry that the forward call (exchange A, exchange B) gives for a base asset,
  the base asset of a symbol, and the taker fees of a symbol on the two exchanges.
\<close>

definition forward_entry :: "scan_env \<Rightarrow> string \<Rightarrow> string option \<times> real" where
  "forward_entry env b =
     fee_entry (find_cheapest_common_network_fee (e_set_order env) (e_fees_a env) (e_fees_b env) b)"

definition base_of :: "string \<Rightarrow> string" where
  "base_of symb = hd (split_on CHR ''/'' symb)"

definition taker_a :: "scan_env \<Rightarrow> string \<Rightarrow> real option" where
  "taker_a env symb =
     map_option (get_taker_fee_for_market (ex_a_id env)) (index_markets (e_markets_a env) symb)"

definition taker_b :: "scan_env \<Rightarrow> string \<Rightarrow> real option" where
  "taker_b env symb =
     map_option (get_taker_fee_for_market (ex_b_id env)) (index_markets (e_markets_b env) symb)"

text \<open>
  The profit of an evaluated Opportunity is the fee-aware profit of its own prices and
  amount, with the buy-side and sell-side taker fees of its direction and the withdrawal
  fee \<open>fee\<close>.
\<close>

definition profit_from :: "scan_env \<Rightarrow> direction \<Rightarrow> Opportunity \<Rightarrow> real \<Rightarrow> bool" where
  "profit_from env d opp fee \<longleftrightarrow>
     (\<exists>ta tb. taker_a env (symbol opp) = Some ta \<and> taker_b env (symbol opp) = Some tb
        \<and> profit_pct opp =
            (case d of
               AtoB \<Rightarrow> estimate_fee_aware_profit_pct (buy_price opp) (sell_price opp)
                         (base_amount opp) ta tb fee
             | BtoA \<Rightarrow> estimate_fee_aware_profit_pct (buy_price opp) (sell_price opp)
                         (base_amount opp) tb ta fee))"

definition cache_inv :: "scan_env \<Rightarrow> scan_state \<Rightarrow> bool" where
  "cache_inv env st \<longleftrightarrow>
     (\<forall>b e. network_fee_cache st b = Some e \<longrightarrow> e = forward_entry env b)
     \<and> dom (network_fee_cache st) = snd ` set (fee_lookups st)
     \<and> distinct (map snd (fee_lookups st))
     \<and> (\<forall>l\<in>set (fee_lookups st). fst l = AtoB)"

definition eval_inv :: "scan_env \<Rightarrow> scan_state \<Rightarrow> bool" where
  "eval_inv env st \<longleftrightarrow>
     opportunities st
       = filter (\<lambda>opp. min_profit_pct (cfg env) \<le> profit_pct opp) (map snd (evaluated st))
     \<and> (\<forall>x\<in>set (evaluated st).
           network_fee_cache st (base_of (symbol (snd x))) \<noteq> None
           \<and> network (snd x) = fst (forward_entry env (base_of (symbol (snd x))))
           \<and> profit_from env (fst x) (snd x) (snd (forward_entry env (base_of (symbol (snd x))))))"

text \<open>
  An example scan: two symbols on two exchanges, each book with one ask and one bid level of
  amount 10; only ETH has a withdrawal network that both exchanges publish.
\<close>

definition level_book :: "real \<Rightarrow> real \<Rightarrow> order_book" where
  "level_book ask bid = \<lparr>asks = [[Some ask, Some 10]], bids = [[Some bid, Some 10]]\<rparr>"

definition env1 :: scan_env where
  "env1 = \<lparr>ex_a_id = ''binance'', ex_b_id = ''kucoin'',
     e_markets_a = [mk ''BTC'' ''USDT'', mk ''ETH'' ''USDT''],
     e_markets_b = [mk ''BTC'' ''USDT'', mk ''ETH'' ''USDT''],
     e_books_a = [''BTC/USDT'' \<mapsto> level_book 100 99, ''ETH/USDT'' \<mapsto> level_book 50 49],
     e_books_b = [''BTC/USDT'' \<mapsto> level_book 111 110, ''ETH/USDT'' \<mapsto> level_book 45 44],
     e_fees_a = [''ETH'' \<mapsto> [(''ERC20'', 1 / 100)]],
     e_fees_b = [''ETH'' \<mapsto> [(''ERC20'', 2 / 100)]],
     e_set_order = id,
     cfg = \<lparr>min_profit_pct = 1 / 2, min_notional_usd = 100,
             preferred_quotes = [''USDT'', ''USDC'']\<rparr>\<rparr>"

section \<open>Verified properties\<close>

subsection \<open>The VWAP fill\<close>

lemma tol_pos: "0 < fill_tolerance" by (simp add: fill_tolerance_def)

lemma vwap_loop_takes:
  "vwap_loop levels r tq f =
     (tq + quote_of (takes_until (map snd (valid_levels levels)) r) (valid_levels levels),
      f + sum_list (takes_until (map snd (valid_levels levels)) r))"
proof (induction levels arbitrary: r tq f)
  case Nil
  then show ?case by (simp add: quote_of_def)
next
  case (Cons level rest)
  show ?case
    by (auto simp: Cons quote_of_def Let_def split: option.splits)
qed

lemma valid_levels_pos: "(p, a) \<in> set (valid_levels levels) \<Longrightarrow> 0 < p \<and> 0 < a"
  by (induction levels) (auto split: if_splits option.splits)

lemma takes_until_pos:
  "0 < r \<Longrightarrow> \<forall>a\<in>set as. 0 < a \<Longrightarrow> t \<in> set (takes_until as r) \<Longrightarrow> 0 < t"
proof (induction as arbitrary: r)
  case Nil
  then show ?case by simp
next
  case (Cons a as)
  have a: "0 < a" and as: "\<forall>a\<in>set as. 0 < a" using Cons.prems(2) by auto
  have m: "0 < min r a" using a Cons.prems(1) by simp
  show ?case
  proof (cases "r - min r a \<le> fill_tolerance")
    case True
    with Cons.prems(3) m show ?thesis by (simp add: Let_def)
  next
    case False
    then have r': "0 < r - min r a" using tol_pos by linarith
    from Cons.prems(3) False have "t = min r a \<or> t \<in> set (takes_until as (r - min r a))"
      by (simp add: Let_def)
    then show ?thesis using m Cons.IH [OF r' as] by blast
  qed
qed

lemma takes_until_le_remaining:
  "0 < r \<Longrightarrow> \<forall>a\<in>set as. 0 < a \<Longrightarrow> sum_list (takes_until as r) \<le> r"
proof (induction as arbitrary: r)
  case Nil
  then show ?case by simp
next
  case (Cons a as)
  show ?case
  proof (cases "r - min r a \<le> fill_tolerance")
    case True
    then show ?thesis by (simp add: Let_def)
  next
    case False
    then have "0 < r - min r a" using tol_pos by linarith
    with Cons.prems have "sum_list (takes_until as (r - min r a)) \<le> r - min r a"
      by (intro Cons.IH) auto
    with False show ?thesis by (simp add: Let_def)
  qed
qed

lemma takes_until_le_depth:
  "0 < r \<Longrightarrow> \<forall>a\<in>set as. 0 < a \<Longrightarrow> sum_list (takes_until as r) \<le> sum_list as"
proof (induction as arbitrary: r)
  case Nil
  then show ?case by simp
next
  case (Cons a as)
  have nn: "0 \<le> sum_list as" using Cons.prems by (intro sum_list_nonneg) auto
  show ?case
  proof (cases "r - min r a \<le> fill_tolerance")
    case True
    with nn show ?thesis by (simp add: Let_def)
  next
    case False
    then have "0 < r - min r a" using tol_pos by linarith
    with Cons.prems have "sum_list (takes_until as (r - min r a)) \<le> sum_list as"
      by (intro Cons.IH) auto
    with False show ?thesis by (simp add: Let_def)
  qed
qed

lemma takes_until_nonempty: "as \<noteq> [] \<Longrightarrow> takes_until as r \<noteq> []"
  by (cases as) (auto simp: Let_def)

lemma takes_until_length: "length (takes_until as r) \<le> length as"
  by (induction as arbitrary: r) (auto simp: Let_def)

lemma quote_of_nonneg:
  "\<forall>t\<in>set ts. 0 < t \<Longrightarrow> \<forall>v\<in>set vs. 0 < fst v \<Longrightarrow> 0 \<le> quote_of ts vs"
proof (induction ts arbitrary: vs)
  case Nil
  then show ?case by (simp add: quote_of_def)
next
  case (Cons t ts)
  show ?case
  proof (cases vs)
    case Nil
    then show ?thesis by (simp add: quote_of_def)
  next
    case (Cons v vs')
    have "0 \<le> quote_of ts vs'" using Cons.prems Cons by (intro Cons.IH) auto
    moreover have "0 < t * fst v" using Cons.prems Cons by simp
    ultimately show ?thesis using Cons by (simp add: quote_of_def)
  qed
qed

lemma quote_of_pos:
  assumes "ts \<noteq> []" "vs \<noteq> []" "\<forall>t\<in>set ts. 0 < t" "\<forall>v\<in>set vs. 0 < fst v"
  shows "0 < quote_of ts vs"
proof -
  obtain t ts' where ts: "ts = t # ts'" using assms(1) by (cases ts) auto
  obtain v vs' where vs: "vs = v # vs'" using assms(2) by (cases vs) auto
  have "0 \<le> quote_of ts' vs'" using assms(3,4) unfolding ts vs by (intro quote_of_nonneg) auto
  moreover have "0 < t * fst v" using assms(3,4) unfolding ts vs by auto
  ultimately show ?thesis unfolding quote_of_def ts vs by simp
qed

lemma sum_list_takes_pos:
  assumes "0 < r" "\<forall>a\<in>set as. 0 < a" "as \<noteq> []"
  shows "0 < sum_list (takes_until as r)"
proof -
  obtain t ts where ts: "takes_until as r = t # ts"
    using takes_until_nonempty [OF assms(3), of r] by (cases "takes_until as r") auto
  have pos: "\<forall>x\<in>set (t # ts). 0 < x"
    using takes_until_pos [OF assms(1,2)] unfolding ts [symmetric] by blast
  then have "0 \<le> sum_list ts" by (intro sum_list_nonneg) (auto intro: less_imp_le)
  with pos show ?thesis unfolding ts by simp
qed

lemma valid_amounts_pos: "\<forall>a\<in>set (map snd (valid_levels levels)). 0 < a"
  using valid_levels_pos by fastforce

lemma valid_prices_pos: "\<forall>v\<in>set (valid_levels levels). 0 < fst v"
  using valid_levels_pos by fastforce

lemma compute_vwap_eq_until_filled:
  "compute_vwap_for_amount side levels amount_base = vwap_until_filled levels amount_base"
  by (simp add: compute_vwap_for_amount_def vwap_until_filled_def vwap_loop_takes Let_def)

lemma vwap_until_filled_None:
  "vwap_until_filled levels amount_base = None \<longleftrightarrow> amount_base \<le> 0 \<or> valid_levels levels = []"
proof (cases "amount_base \<le> 0")
  case True
  then show ?thesis by (simp add: vwap_until_filled_def)
next
  case False
  then have r: "0 < amount_base" by simp
  show ?thesis
  proof (cases "valid_levels levels = []")
    case True
    then show ?thesis by (simp add: vwap_until_filled_def)
  next
    case False
    then have "map snd (valid_levels levels) \<noteq> []" by simp
    from sum_list_takes_pos [OF r valid_amounts_pos this] False r
    show ?thesis by (simp add: vwap_until_filled_def Let_def)
  qed
qed

text \<open>
  Claim C1, as the code has it. \<^verbatim>\<open>compute_vwap_for_amount\<close> walks the levels in the order
  given, skips every level with fewer than two numeric fields or a non-positive price or
  amount, and takes \<open>min remaining amount\<close> from each valid level in turn, stopping after
  the first level that leaves at most \<open>1e-12\<close> unfilled. It returns no value exactly when
  the requested amount is not positive or no level is valid, and otherwise the pair
  (total quote / filled, filled). For the asks \<open>[[100,1],[101,2]]\<close> and amount 1.5 it
  returns filled 1.5 at the average price \<open>(1*100 + 0.5*101)/1.5\<close>.
\<close>

theorem compute_vwap_for_amount_stops_when_filled:
  "compute_vwap_for_amount side levels amount_base = vwap_until_filled levels amount_base
   \<and> (compute_vwap_for_amount side levels amount_base = None
        \<longleftrightarrow> amount_base \<le> 0 \<or> valid_levels levels = [])
   \<and> compute_vwap_for_amount ''buy'' [[Some 100, Some 1], [Some 101, Some 2]] (3 / 2)
       = Some ((1 * 100 + (1 / 2) * 101) / (3 / 2), 3 / 2)"
proof (intro conjI)
  show "compute_vwap_for_amount side levels amount_base = vwap_until_filled levels amount_base"
    by (rule compute_vwap_eq_until_filled)
  show "compute_vwap_for_amount side levels amount_base = None
        \<longleftrightarrow> amount_base \<le> 0 \<or> valid_levels levels = []"
    by (simp only: compute_vwap_eq_until_filled vwap_until_filled_None)
  show "compute_vwap_for_amount ''buy'' [[Some 100, Some 1], [Some 101, Some 2]] (3 / 2)
       = Some ((1 * 100 + (1 / 2) * 101) / (3 / 2), 3 / 2)"
    by (simp add: compute_vwap_for_amount_def fill_tolerance_def)
qed

theorem compute_vwap_for_amount_stops_when_filled_witness:
  "compute_vwap_for_amount ''sell'' [[Some 100, Some (1 / 2)], [Some 0, Some 5], [Some 98]] 3
     = Some (100, 1 / 2)
   \<and> compute_vwap_for_amount ''sell'' [[Some 0, Some 5], [Some 98], [None, Some 1]] 3 = None"
  using compute_vwap_for_amount_stops_when_filled
          [of "''sell''" "[[Some 100, Some (1 / 2)], [Some 0, Some 5], [Some 98]]" 3]
        compute_vwap_for_amount_stops_when_filled
          [of "''sell''" "[[Some 0, Some 5], [Some 98], [None, Some 1]]" 3]
  by (simp add: vwap_until_filled_def quote_of_def fill_tolerance_def)

text \<open>
  The fill that takes \<open>min remaining amount\<close> from every valid level, without the stop at
  the tolerance, is a different function: with \<open>1e-13\<close> left after the first level the
  code stops there, and the second level is never touched.
\<close>

theorem compute_vwap_every_level_counterexample:
  "compute_vwap_for_amount ''buy'' [[Some 100, Some (1 - 1 / 10 ^ 13)], [Some 200, Some 1]] 1
     = Some (100, 1 - 1 / 10 ^ 13)
   \<and> vwap_every_level [[Some 100, Some (1 - 1 / 10 ^ 13)], [Some 200, Some 1]] 1
     = Some (100 + 1 / 10 ^ 11, 1)"
  by (simp add: compute_vwap_for_amount_def vwap_every_level_def quote_of_def fill_tolerance_def)

text \<open>
  Claim C2. \<^verbatim>\<open>estimate_fee_aware_profit_pct\<close> returns
  \<open>(revenue - cost) / cost * 100\<close> with cost \<open>base_amount * buy_price * (1 + taker_fee_buy)\<close>
  and revenue \<open>max 0 (base_amount - withdraw_fee_base) * sell_price * (1 - taker_fee_sell)\<close>,
  except that it returns exactly \<open>-100\<close> whenever the cost is not positive.
\<close>

theorem estimate_fee_aware_profit_pct_formula:
  "estimate_fee_aware_profit_pct buy_px sell_px amount taker_fee_buy taker_fee_sell
       withdraw_fee_base =
     (if amount * buy_px * (1 + taker_fee_buy) \<le> 0 then - 100
      else ((max 0 (amount - withdraw_fee_base) * sell_px * (1 - taker_fee_sell))
              - (amount * buy_px * (1 + taker_fee_buy)))
            / (amount * buy_px * (1 + taker_fee_buy)) * 100)"
  by (simp add: estimate_fee_aware_profit_pct_def Let_def)

theorem estimate_fee_aware_profit_pct_formula_witness:
  "estimate_fee_aware_profit_pct 0 110 1 (1 / 1000) (1 / 1000) 0 = - 100
   \<and> estimate_fee_aware_profit_pct 100 110 2 (1 / 10) (1 / 10) 1 = - 55"
  using estimate_fee_aware_profit_pct_formula [of 0 110 1 "1 / 1000" "1 / 1000" 0]
        estimate_fee_aware_profit_pct_formula [of 100 110 2 "1 / 10" "1 / 10" 1]
  by simp

text \<open>
  Claim C10. For a positive requested amount, whenever \<^verbatim>\<open>compute_vwap_for_amount\<close>
  returns a pair (average price, filled), the fill is positive, at most the requested
  amount and at most the total amount of the valid levels, and the average price is
  positive.
\<close>

theorem compute_vwap_fill_bounds:
  assumes "0 < amount_base"
    and "compute_vwap_for_amount side levels amount_base = Some (avg_price, filled)"
  shows "0 < filled \<and> filled \<le> amount_base
         \<and> filled \<le> sum_list (map snd (valid_levels levels)) \<and> 0 < avg_price"
proof -
  let ?vs = "valid_levels levels"
  let ?ts = "takes_until (map snd ?vs) amount_base"
  from assms have f: "filled = sum_list ?ts" and fpos: "0 < filled"
    and avg: "avg_price = quote_of ?ts ?vs / filled"
    by (auto simp: compute_vwap_eq_until_filled vwap_until_filled_def Let_def split: if_splits)
  have ne: "?vs \<noteq> []" using f fpos by auto
  then have tne: "?ts \<noteq> []" by (intro takes_until_nonempty) simp
  have tpos: "\<forall>t\<in>set ?ts. 0 < t"
    using takes_until_pos [OF assms(1) valid_amounts_pos] by blast
  have "0 < quote_of ?ts ?vs" by (rule quote_of_pos [OF tne ne tpos valid_prices_pos])
  with fpos avg have "0 < avg_price" by simp
  moreover have "filled \<le> amount_base"
    unfolding f by (rule takes_until_le_remaining [OF assms(1) valid_amounts_pos])
  moreover have "filled \<le> sum_list (map snd ?vs)"
    unfolding f by (rule takes_until_le_depth [OF assms(1) valid_amounts_pos])
  ultimately show ?thesis using fpos by simp
qed

theorem compute_vwap_fill_bounds_witness:
  "(0::real) < 5
   \<and> compute_vwap_for_amount ''buy'' [[Some 100, Some (1 / 2)], [Some 102, Some (1 / 2)]] 5
       = Some (101, 1)
   \<and> (0::real) < 1 \<and> (1::real) \<le> 5
   \<and> 1 \<le> sum_list (map snd (valid_levels [[Some 100, Some (1 / 2)], [Some 102, Some (1 / 2)]]))
   \<and> (0::real) < 101"
proof -
  have a: "(0::real) < 5" by simp
  have c: "compute_vwap_for_amount ''buy'' [[Some 100, Some (1 / 2)], [Some 102, Some (1 / 2)]] 5
       = Some (101, 1)"
    by (simp add: compute_vwap_for_amount_def fill_tolerance_def)
  from compute_vwap_fill_bounds [OF a c] a c show ?thesis by simp
qed

subsection \<open>The order-book fallback ladder\<close>

lemma try_candidates_None:
  "try_candidates f s n cs = None \<longleftrightarrow> (\<forall>i<length cs. isl (f (n + i) s (cs ! i)))"
proof (induction cs arbitrary: n)
  case Nil
  then show ?case by simp
next
  case (Cons c cs)
  show ?case
  proof (cases "f n s c")
    case (Inl msg)
    have "(\<forall>i<length (c # cs). isl (f (n + i) s ((c # cs) ! i)))
          \<longleftrightarrow> (\<forall>i<length cs. isl (f (Suc n + i) s (cs ! i)))"
      using Inl by (auto simp: less_Suc_eq_0_disj)
    with Inl Cons.IH [of "Suc n"] show ?thesis by simp
  next
    case (Inr book)
    then have "\<not> isl (f (n + 0) s ((c # cs) ! 0))" by simp
    then have "\<not> (\<forall>i<length (c # cs). isl (f (n + i) s ((c # cs) ! i)))" by blast
    with Inr show ?thesis by simp
  qed
qed

lemma try_candidates_Some:
  "try_candidates f s n cs = Some book \<Longrightarrow>
     \<exists>i<length cs. f (n + i) s (cs ! i) = Inr book \<and> (\<forall>j<i. isl (f (n + j) s (cs ! j)))"
proof (induction cs arbitrary: n)
  case Nil
  then show ?case by simp
next
  case (Cons c cs)
  show ?case
  proof (cases "f n s c")
    case (Inl msg)
    with Cons.prems have "try_candidates f s (Suc n) cs = Some book" by simp
    from Cons.IH [OF this] obtain i where i: "i < length cs"
      "f (Suc n + i) s (cs ! i) = Inr book" "\<forall>j<i. isl (f (Suc n + j) s (cs ! j))" by blast
    have "\<forall>j<Suc i. isl (f (n + j) s ((c # cs) ! j))"
      using i(3) Inl by (auto simp: less_Suc_eq_0_disj)
    with i(1,2) show ?thesis by (intro exI [of _ "Suc i"]) simp
  next
    case (Inr b)
    with Cons.prems have "b = book" by simp
    with Inr show ?thesis by (intro exI [of _ 0]) simp
  qed
qed

lemma fallback_candidates_claimed: "fallback_candidates eid msg = claimed_ladder eid msg"
  by (simp add: fallback_candidates_def claimed_ladder_def)

text \<open>
  Claim C6. \<^verbatim>\<open>fetch_order_book_safe\<close> is a total function into an optional book, so
  nothing is raised to its caller. When the first attempt succeeds its book is returned.
  When it fails with the text \<open>msg\<close>, the fallback depths are \<open>[20, 100]\<close> for the
  exchanges kucoin and kucoinfutures, else \<open>[20, 50, 100]\<close> when \<open>msg\<close> contains "limit"
  and one of 20, 50, 100, 500, 1000, else one fetch without a depth; they are tried in
  order, a failing attempt is passed over, the first book obtained is returned, and the
  result is no value exactly when every fallback attempt fails.
\<close>

theorem fetch_order_book_safe_ladder:
  "(\<forall>book. fetch_order_book 0 symb (Some limit) = Inr book
       \<longrightarrow> fetch_order_book_safe fetch_order_book exchange_id symb limit = Some book)
   \<and> (\<forall>msg. fetch_order_book 0 symb (Some limit) = Inl msg \<longrightarrow>
        (fetch_order_book_safe fetch_order_book exchange_id symb limit = None
           \<longleftrightarrow> (\<forall>i<length (claimed_ladder exchange_id msg).
                  isl (fetch_order_book (Suc i) symb (claimed_ladder exchange_id msg ! i))))
        \<and> (\<forall>book. fetch_order_book_safe fetch_order_book exchange_id symb limit = Some book
             \<longrightarrow> (\<exists>i<length (claimed_ladder exchange_id msg).
                    fetch_order_book (Suc i) symb (claimed_ladder exchange_id msg ! i) = Inr book
                    \<and> (\<forall>j<i. isl (fetch_order_book (Suc j) symb
                                     (claimed_ladder exchange_id msg ! j))))))"
proof (intro conjI allI impI)
  fix book assume "fetch_order_book 0 symb (Some limit) = Inr book"
  then show "fetch_order_book_safe fetch_order_book exchange_id symb limit = Some book"
    by (simp add: fetch_order_book_safe_def)
next
  fix msg assume m: "fetch_order_book 0 symb (Some limit) = Inl msg"
  then have eq: "fetch_order_book_safe fetch_order_book exchange_id symb limit
      = try_candidates fetch_order_book symb 1 (claimed_ladder exchange_id msg)"
    by (simp add: fetch_order_book_safe_def fallback_candidates_claimed)
  show "fetch_order_book_safe fetch_order_book exchange_id symb limit = None
           \<longleftrightarrow> (\<forall>i<length (claimed_ladder exchange_id msg).
                  isl (fetch_order_book (Suc i) symb (claimed_ladder exchange_id msg ! i)))"
    unfolding eq try_candidates_None by simp
  fix book assume "fetch_order_book_safe fetch_order_book exchange_id symb limit = Some book"
  then have "try_candidates fetch_order_book symb 1 (claimed_ladder exchange_id msg) = Some book"
    unfolding eq .
  from try_candidates_Some [OF this]
  show "\<exists>i<length (claimed_ladder exchange_id msg).
          fetch_order_book (Suc i) symb (claimed_ladder exchange_id msg ! i) = Inr book
          \<and> (\<forall>j<i. isl (fetch_order_book (Suc j) symb (claimed_ladder exchange_id msg ! j)))"
    by simp
qed

theorem fetch_order_book_safe_ladder_witness:
  "fetch_order_book_safe flaky ''binance'' ''BTC/USDT'' 50 = Some 2
   \<and> fetch_order_book_safe (\<lambda>n s depth. Inl ''timeout'' :: string + nat) ''kucoin'' ''BTC/USDT'' 50 = None
   \<and> fetch_order_book_safe (\<lambda>n s depth. Inr n) ''kucoin'' ''BTC/USDT'' 50 = Some 0"
proof -
  have 1: "flaky 0 ''BTC/USDT'' (Some 50) = Inl ''limit must be 20 or 100''"
    by (simp add: flaky_def)
  have l: "claimed_ladder ''binance'' ''limit must be 20 or 100'' = [Some 20, Some 50, Some 100]"
    by (simp add: claimed_ladder_def sublist_code)
  have k: "claimed_ladder ''kucoin'' ''timeout'' = [Some 20, Some 100]"
    by (simp add: claimed_ladder_def)
  have a: "fetch_order_book_safe flaky ''binance'' ''BTC/USDT'' 50 = Some 2"
    by (simp add: fetch_order_book_safe_def flaky_def fallback_candidates_def sublist_code)
  have "fetch_order_book_safe (\<lambda>n s depth. Inl ''timeout'' :: string + nat) ''kucoin'' ''BTC/USDT'' 50 = None"
    using fetch_order_book_safe_ladder
      [of "\<lambda>n s depth. Inl ''timeout'' :: string + nat" "''BTC/USDT''" 50 "''kucoin''"]
    by simp
  moreover have "fetch_order_book_safe (\<lambda>n s depth. Inr n) ''kucoin'' ''BTC/USDT'' 50 = Some (0::nat)"
    using fetch_order_book_safe_ladder [of "\<lambda>n s depth. Inr n" "''BTC/USDT''" 50 "''kucoin''"]
    by simp
  ultimately show ?thesis using a by simp
qed

subsection \<open>The cache\<close>






subsection \<open>Common symbols\<close>

lemma split_on_no_sep: "sep \<notin> set s \<Longrightarrow> split_on sep s = [s]"
  by (induction s) auto

lemma split_on_append:
  "sep \<notin> set b \<Longrightarrow> split_on sep (b @ sep # q) = b # split_on sep q"
  by (induction b) auto

lemma split_on_render:
  "CHR ''/'' \<notin> set b \<Longrightarrow> CHR ''/'' \<notin> set q
     \<Longrightarrow> split_on CHR ''/'' (render_symbol (b, q)) = [b, q]"
  by (simp add: render_symbol_def split_on_append split_on_no_sep)

lemma set_active_pairs:
  "set (active_pairs ms) = {(m_base m, m_quote m) | m. m \<in> set ms \<and> m_active m}"
  by (auto simp: active_pairs_def)

lemma in_active_pairs:
  "(b, q) \<in> set (active_pairs ms) \<longleftrightarrow> (\<exists>m\<in>set ms. m_active m \<and> m_base m = b \<and> m_quote m = q)"
  unfolding set_active_pairs by blast

lemma distinct_active_pairs: "distinct (active_pairs ms)"
  by (simp add: active_pairs_def)

lemma find_common_symbols_unfold:
  "find_common_symbols markets_a markets_b preferred =
     sort (filter (\<lambda>s. (case preferred of None \<Rightarrow> True
                        | Some pq \<Rightarrow> pq = [] \<or> upper (split_on CHR ''/'' s ! 1) \<in> set (map upper pq)))
            (map render_symbol
               (filter (\<lambda>p. p \<in> set (active_pairs markets_b)) (active_pairs markets_a))))"
  by (cases preferred) (auto simp: find_common_symbols_def Let_def)

lemma common_no_slash:
  assumes "no_slash markets_a" "p \<in> set (active_pairs markets_a)"
  shows "CHR ''/'' \<notin> set (fst p) \<and> CHR ''/'' \<notin> set (snd p)"
  using assms by (auto simp: no_slash_def set_active_pairs)

lemma render_inj:
  assumes "no_slash markets_a"
  shows "inj_on render_symbol (set (active_pairs markets_a))"
proof (rule inj_onI)
  fix p p' assume p: "p \<in> set (active_pairs markets_a)" and p': "p' \<in> set (active_pairs markets_a)"
    and eq: "render_symbol p = render_symbol p'"
  have "split_on CHR ''/'' (render_symbol (fst p, snd p)) = [fst p, snd p]"
    using common_no_slash [OF assms p] by (intro split_on_render) auto
  moreover have "split_on CHR ''/'' (render_symbol (fst p', snd p')) = [fst p', snd p']"
    using common_no_slash [OF assms p'] by (intro split_on_render) auto
  ultimately have "[fst p, snd p] = [fst p', snd p']" using eq by simp
  then show "p = p'" by (simp add: prod_eq_iff)
qed

text \<open>
  Claim C8, as the code has it. When no asset code of an active market of the first list
  contains "/", \<^verbatim>\<open>find_common_symbols\<close> returns exactly the strings "BASE/QUOTE" of the
  pairs that an active market of each list has, restricted, when preferred quotes are
  given, to the pairs whose quote equals a preferred quote up to case; the list is sorted
  ascending and has no duplicates. For the markets (BTC,USDT), (ETH,USDT) against
  (BTC,USDT), (BTC,BUSD) with the preferred quote USDT the result is \<open>[BTC/USDT]\<close>.
\<close>

theorem find_common_symbols_spec:
  assumes "no_slash markets_a"
  shows "set (find_common_symbols markets_a markets_b preferred)
           = {b @ ''/'' @ q | b q. common_pair markets_a markets_b b q
                                  \<and> quote_preferred preferred q}
    \<and> sorted (find_common_symbols markets_a markets_b preferred)
    \<and> distinct (find_common_symbols markets_a markets_b preferred)
    \<and> find_common_symbols [mk ''BTC'' ''USDT'', mk ''ETH'' ''USDT'']
          [mk ''BTC'' ''USDT'', mk ''BTC'' ''BUSD''] (Some [''USDT'']) = [''BTC/USDT'']"
proof (intro conjI)
  show "find_common_symbols [mk ''BTC'' ''USDT'', mk ''ETH'' ''USDT'']
          [mk ''BTC'' ''USDT'', mk ''BTC'' ''BUSD''] (Some [''USDT'']) = [''BTC/USDT'']"
    by code_simp
next
  let ?common = "filter (\<lambda>p. p \<in> set (active_pairs markets_b)) (active_pairs markets_a)"
  let ?keep = "\<lambda>s. (case preferred of None \<Rightarrow> True
                        | Some pq \<Rightarrow> pq = [] \<or> upper (split_on CHR ''/'' s ! 1) \<in> set (map upper pq))"
  have field: "split_on CHR ''/'' (render_symbol p) ! 1 = snd p" if "p \<in> set ?common" for p
  proof -
    from that have "p \<in> set (active_pairs markets_a)" by simp
    from common_no_slash [OF assms this]
    have "split_on CHR ''/'' (render_symbol (fst p, snd p)) = [fst p, snd p]"
      by (intro split_on_render) auto
    then show ?thesis by simp
  qed
  have keep: "?keep (render_symbol p) \<longleftrightarrow> quote_preferred preferred (snd p)"
    if "p \<in> set ?common" for p
    unfolding field [OF that] quote_preferred_def
    by (cases preferred) (auto simp: image_iff, metis)
  have "set (find_common_symbols markets_a markets_b preferred)
        = {render_symbol p | p. p \<in> set ?common \<and> ?keep (render_symbol p)}"
    unfolding find_common_symbols_unfold by auto
  also have "\<dots> = {render_symbol p | p. p \<in> set ?common \<and> quote_preferred preferred (snd p)}"
    using keep by blast
  also have "\<dots> = {b @ ''/'' @ q | b q. common_pair markets_a markets_b b q
                                  \<and> quote_preferred preferred q}"
  proof -
    have mem: "p \<in> set ?common \<longleftrightarrow> common_pair markets_a markets_b (fst p) (snd p)" for p
      by (cases p) (simp add: in_active_pairs common_pair_def)
    have "{render_symbol p | p. p \<in> set ?common \<and> quote_preferred preferred (snd p)}
        = {render_symbol (b, q) | b q. common_pair markets_a markets_b b q
                                  \<and> quote_preferred preferred q}"
      unfolding mem by auto
    then show ?thesis by (simp add: render_symbol_def)
  qed
  finally show "set (find_common_symbols markets_a markets_b preferred)
           = {b @ ''/'' @ q | b q. common_pair markets_a markets_b b q
                                  \<and> quote_preferred preferred q}" .
  show "sorted (find_common_symbols markets_a markets_b preferred)"
    unfolding find_common_symbols_unfold by simp
  have "inj_on render_symbol (set ?common)"
    by (rule inj_on_subset [OF render_inj [OF assms]]) auto
  then have "distinct (map render_symbol ?common)"
    by (simp add: distinct_map distinct_active_pairs)
  then show "distinct (find_common_symbols markets_a markets_b preferred)"
    unfolding find_common_symbols_unfold by (simp add: distinct_map_filter)
qed

theorem find_common_symbols_spec_witness:
  "no_slash [mk ''BTC'' ''USDT'', mk ''ETH'' ''usdt'', mk ''ADA'' ''EUR'']
   \<and> find_common_symbols [mk ''BTC'' ''USDT'', mk ''ETH'' ''usdt'', mk ''ADA'' ''EUR'']
         [mk ''ETH'' ''usdt'', mk ''BTC'' ''USDT'', mk ''ADA'' ''EUR''] (Some [''Usdt''])
       = [''BTC/USDT'', ''ETH/usdt'']
   \<and> sorted (find_common_symbols [mk ''BTC'' ''USDT'', mk ''ETH'' ''usdt'', mk ''ADA'' ''EUR'']
         [mk ''ETH'' ''usdt'', mk ''BTC'' ''USDT'', mk ''ADA'' ''EUR''] (Some [''Usdt'']))"
proof -
  have h: "no_slash [mk ''BTC'' ''USDT'', mk ''ETH'' ''usdt'', mk ''ADA'' ''EUR'']"
    by code_simp
  have e: "find_common_symbols [mk ''BTC'' ''USDT'', mk ''ETH'' ''usdt'', mk ''ADA'' ''EUR'']
         [mk ''ETH'' ''usdt'', mk ''BTC'' ''USDT'', mk ''ADA'' ''EUR''] (Some [''Usdt''])
       = [''BTC/USDT'', ''ETH/usdt'']"
    by code_simp
  from find_common_symbols_spec [OF h] have
    "sorted (find_common_symbols [mk ''BTC'' ''USDT'', mk ''ETH'' ''usdt'', mk ''ADA'' ''EUR'']
         [mk ''ETH'' ''usdt'', mk ''BTC'' ''USDT'', mk ''ADA'' ''EUR''] (Some [''Usdt'']))"
    by (rule conjunct1 [OF conjunct2])
  with h e show ?thesis by (intro conjI)
qed

text \<open>
  With a base code that contains the separator, the second field of the rendered string is
  not the quote: the only market has the quote BTC, which is not preferred, and its string
  is returned all the same.
\<close>

theorem find_common_symbols_slash_counterexample:
  "find_common_symbols [mk ''X/USDT'' ''BTC''] [mk ''X/USDT'' ''BTC''] (Some [''USDT''])
     = [''X/USDT/BTC'']
   \<and> map m_quote [mk ''X/USDT'' ''BTC''] = [''BTC'']
   \<and> \<not> quote_preferred (Some [''USDT'']) ''BTC''"
  by code_simp

subsection \<open>The cheapest common network\<close>

lemma key_less_trans: "key_less x y \<Longrightarrow> key_less y z \<Longrightarrow> key_less x z"
  by (cases x; cases y; cases z) auto

lemma key_less_negtrans: "\<not> key_less x y \<Longrightarrow> \<not> key_less y z \<Longrightarrow> \<not> key_less x z"
  by (cases x; cases y; cases z) auto

lemma key_less_irrefl: "\<not> key_less x x"
  by (cases x) auto

lemma min_by_key_mem: "min_by_key key best xs \<in> set (best # xs)"
  by (induction xs arbitrary: best) auto

lemma min_by_key_least:
  "x \<in> set (best # xs) \<Longrightarrow> \<not> key_less (key x) (key (min_by_key key best xs))"
proof (induction xs arbitrary: best x)
  case Nil
  then show ?case by (simp add: key_less_irrefl)
next
  case (Cons y ys)
  show ?case
  proof (cases "key_less (key y) (key best)")
    case True
    then have r: "min_by_key key best (y # ys) = min_by_key key y ys" by simp
    show ?thesis
    proof (cases "x = best")
      case True
      have "\<not> key_less (key y) (key (min_by_key key y ys))" by (rule Cons.IH) simp
      moreover have "\<not> key_less (key best) (key y)"
        using \<open>key_less (key y) (key best)\<close> key_less_trans key_less_irrefl by blast
      ultimately show ?thesis unfolding r True by (rule key_less_negtrans [rotated])
    next
      case False
      with Cons.prems have "x \<in> set (y # ys)" by auto
      then show ?thesis unfolding r by (rule Cons.IH)
    qed
  next
    case False
    then have r: "min_by_key key best (y # ys) = min_by_key key best ys" by simp
    show ?thesis
    proof (cases "x = y")
      case True
      have "\<not> key_less (key best) (key (min_by_key key best ys))" by (rule Cons.IH) simp
      with False show ?thesis unfolding r True by (rule key_less_negtrans)
    next
      case False
      with Cons.prems have "x \<in> set (best # ys)" by auto
      then show ?thesis unfolding r by (rule Cons.IH)
    qed
  qed
qed

lemma network_key_common:
  "map_of a n = Some x \<Longrightarrow> map_of b n = Some y \<Longrightarrow> network_key a b n = Fin (x + y)"
  by (simp add: network_key_def)

lemma map_of_Some_iff_fst: "(\<exists>x. map_of a n = Some x) \<longleftrightarrow> n \<in> fst ` set a"
  by (metis map_of_eq_None_iff not_Some_eq)

lemma map_of_the: "n \<in> fst ` set a \<Longrightarrow> map_of a n = Some (the (map_of a n))"
  using map_of_Some_iff_fst [of a n] by auto

text \<open>
  Claim C5. Whatever the iteration order of the set of common networks,
  \<^verbatim>\<open>find_cheapest_common_network_fee\<close> returns no value exactly when one of the two
  exchanges has no network fees for the currency or the two sets of network names do not
  meet; otherwise it returns a common network for which the sum of the two exchanges' fees
  is least, together with the fee of exchange A for that network.
\<close>

theorem find_cheapest_common_network_fee_spec:
  assumes "\<forall>xs. set (set_order xs) = set xs"
  shows "(find_cheapest_common_network_fee set_order fees_a fees_b code = None
           \<longleftrightarrow> currency_fees fees_a code = [] \<or> currency_fees fees_b code = []
               \<or> fst ` set (currency_fees fees_a code) \<inter> fst ` set (currency_fees fees_b code) = {})
    \<and> (\<forall>n fee. find_cheapest_common_network_fee set_order fees_a fees_b code = Some (n, fee) \<longrightarrow>
          n \<in> fst ` set (currency_fees fees_a code) \<inter> fst ` set (currency_fees fees_b code)
          \<and> map_of (currency_fees fees_a code) n = Some fee
          \<and> (\<forall>m \<in> fst ` set (currency_fees fees_a code) \<inter> fst ` set (currency_fees fees_b code).
                the (map_of (currency_fees fees_a code) n) + the (map_of (currency_fees fees_b code) n)
                \<le> the (map_of (currency_fees fees_a code) m)
                    + the (map_of (currency_fees fees_b code) m)))"
proof -
  define a where "a = currency_fees fees_a code"
  define b where "b = currency_fees fees_b code"
  define common where "common = set_order (filter (\<lambda>n. n \<in> set (map fst b)) (remdups (map fst a)))"
  have common: "set common = fst ` set a \<inter> fst ` set b"
    unfolding common_def using assms by auto
  have unfold: "find_cheapest_common_network_fee set_order fees_a fees_b code =
      (if a = [] \<or> b = [] then None
       else (case common of
               [] \<Rightarrow> None
             | n # ns \<Rightarrow>
                 (case map_of a (min_by_key (network_key a b) n ns) of
                    Some fee \<Rightarrow> Some (min_by_key (network_key a b) n ns, fee)
                  | None \<Rightarrow> None)))"
    unfolding find_cheapest_common_network_fee_def a_def b_def common_def Let_def
    by (rule refl)
  show ?thesis
  proof (cases "a = [] \<or> b = []")
    case True
    then show ?thesis
      unfolding unfold unfolding a_def b_def by auto
  next
    case ne: False
    show ?thesis
    proof (cases common)
      case Nil
      with common have "fst ` set a \<inter> fst ` set b = {}" by simp
      moreover have "find_cheapest_common_network_fee set_order fees_a fees_b code = None"
        unfolding unfold using ne Nil by simp
      ultimately show ?thesis unfolding a_def b_def by simp
    next
      case (Cons n ns)
      define best where "best = min_by_key (network_key a b) n ns"
      have "best \<in> set common"
        using min_by_key_mem [of "network_key a b" n ns] unfolding best_def Cons .
      then have best_in: "best \<in> fst ` set a \<inter> fst ` set b"
        unfolding common .
      then obtain fa fb where ba: "map_of a best = Some fa" and bb: "map_of b best = Some fb"
        using map_of_Some_iff_fst [of a best] map_of_Some_iff_fst [of b best] by blast
      have res: "find_cheapest_common_network_fee set_order fees_a fees_b code
                 = Some (best, fa)"
        unfolding unfold best_def using ne Cons ba [unfolded best_def] by simp
      have least: "fa + fb \<le> the (map_of a m) + the (map_of b m)"
        if m: "m \<in> fst ` set a \<inter> fst ` set b" for m
      proof -
        from m obtain x y where ma: "map_of a m = Some x" and mb: "map_of b m = Some y"
          using map_of_Some_iff_fst [of a m] map_of_Some_iff_fst [of b m] by blast
        from m have "m \<in> set common" unfolding common .
        then have "m \<in> set (n # ns)" unfolding Cons .
        from min_by_key_least [OF this, of "network_key a b"]
        have "\<not> key_less (network_key a b m) (network_key a b best)" unfolding best_def .
        then show ?thesis
          unfolding network_key_common [OF ma mb] network_key_common [OF ba bb]
          by (simp add: ma mb)
      qed
      have nonempty: "fst ` set a \<inter> fst ` set b \<noteq> {}" using best_in by blast
      have "(find_cheapest_common_network_fee set_order fees_a fees_b code = None
              \<longleftrightarrow> a = [] \<or> b = [] \<or> fst ` set a \<inter> fst ` set b = {})"
        using ne res nonempty by simp
      moreover have "\<forall>n fee. find_cheapest_common_network_fee set_order fees_a fees_b code
                        = Some (n, fee) \<longrightarrow>
          n \<in> fst ` set a \<inter> fst ` set b \<and> map_of a n = Some fee
          \<and> (\<forall>m \<in> fst ` set a \<inter> fst ` set b.
                the (map_of a n) + the (map_of b n) \<le> the (map_of a m) + the (map_of b m))"
        unfolding res using best_in ba bb least by simp
      ultimately show ?thesis unfolding a_def b_def by (rule conjI)
    qed
  qed
qed

theorem find_cheapest_common_network_fee_spec_witness:
  "(\<forall>xs::string list. set (rev xs) = set xs)
   \<and> find_cheapest_common_network_fee rev
        [''BTC'' \<mapsto> [(''ERC20'', 2), (''TRC20'', 1), (''BEP20'', 1 / 2)]]
        [''BTC'' \<mapsto> [(''TRC20'', 1 / 2), (''ERC20'', 1), (''SOL'', 0)]] ''BTC''
       = Some (''TRC20'', 1)
   \<and> find_cheapest_common_network_fee rev
        [''BTC'' \<mapsto> [(''ERC20'', 2)]] [''BTC'' \<mapsto> [(''TRC20'', 1)]] ''BTC'' = None"
proof -
  have h: "\<forall>xs::string list. set (rev xs) = set xs" by simp
  have r: "find_cheapest_common_network_fee rev
        [''BTC'' \<mapsto> [(''ERC20'', 2), (''TRC20'', 1), (''BEP20'', 1 / 2)]]
        [''BTC'' \<mapsto> [(''TRC20'', 1 / 2), (''ERC20'', 1), (''SOL'', 0)]] ''BTC''
       = Some (''TRC20'', 1)"
    by (simp add: find_cheapest_common_network_fee_def currency_fees_def network_key_def)
  from find_cheapest_common_network_fee_spec [OF h,
         of "[''BTC'' \<mapsto> [(''ERC20'', 2)]]" "[''BTC'' \<mapsto> [(''TRC20'', 1)]]" "''BTC''"]
       find_cheapest_common_network_fee_spec [OF h,
         of "[''BTC'' \<mapsto> [(''ERC20'', 2), (''TRC20'', 1), (''BEP20'', 1 / 2)]]"
            "[''BTC'' \<mapsto> [(''TRC20'', 1 / 2), (''ERC20'', 1), (''SOL'', 0)]]" "''BTC''"]
       h r
  show ?thesis by (simp add: currency_fees_def)
qed

subsection \<open>The scan pass\<close>

lemma lookup_cached:
  "network_fee_cache st b = Some e \<Longrightarrow> lookup_network_fee env d b st = (st, e)"
  by (simp add: lookup_network_fee_def)

lemma lookup_forward_miss:
  "network_fee_cache st b = None \<Longrightarrow>
   lookup_network_fee env AtoB b st =
     (st\<lparr>network_fee_cache := (network_fee_cache st)(b \<mapsto> forward_entry env b),
         fee_lookups := fee_lookups st @ [(AtoB, b)]\<rparr>, forward_entry env b)"
  by (simp add: lookup_network_fee_def forward_entry_def Let_def)

lemma cache_inv_initial: "cache_inv env initial_state"
  by (simp add: cache_inv_def initial_state_def)

lemma eval_inv_initial: "eval_inv env initial_state"
  by (simp add: eval_inv_def initial_state_def)

lemma cache_inv_miss:
  assumes "cache_inv env st" "network_fee_cache st b = None"
  shows "cache_inv env (st\<lparr>network_fee_cache := (network_fee_cache st)(b \<mapsto> forward_entry env b),
                           fee_lookups := fee_lookups st @ [(AtoB, b)]\<rparr>)"
proof -
  from assms have nb: "b \<notin> snd ` set (fee_lookups st)"
    unfolding cache_inv_def by (metis domIff)
  show ?thesis
    using assms(1) nb unfolding cache_inv_def by (auto simp: image_iff)
qed

text \<open>The lookup, in the two situations in which the loop makes it.\<close>

lemma lookup_inv:
  assumes "cache_inv env st" "d = AtoB \<or> network_fee_cache st b \<noteq> None"
  obtains st1 where "lookup_network_fee env d b st = (st1, forward_entry env b)"
    "cache_inv env st1" "network_fee_cache st1 b = Some (forward_entry env b)"
    "evaluated st1 = evaluated st" "opportunities st1 = opportunities st"
    "\<And>c. network_fee_cache st c \<noteq> None \<Longrightarrow> network_fee_cache st1 c \<noteq> None"
proof (cases "network_fee_cache st b")
  case None
  with assms(2) have d: "d = AtoB" by simp
  let ?st1 = "st\<lparr>network_fee_cache := (network_fee_cache st)(b \<mapsto> forward_entry env b),
                  fee_lookups := fee_lookups st @ [(AtoB, b)]\<rparr>"
  show ?thesis
  proof (rule that [of ?st1])
    show "lookup_network_fee env d b st = (?st1, forward_entry env b)"
      unfolding d by (rule lookup_forward_miss [OF None])
    show "cache_inv env ?st1" by (rule cache_inv_miss [OF assms(1) None])
  qed simp_all
next
  case (Some e)
  with assms(1) have e: "e = forward_entry env b" unfolding cache_inv_def by blast
  show ?thesis
  proof (rule that [of st])
    show "lookup_network_fee env d b st = (st, forward_entry env b)"
      using lookup_cached [OF Some] e by simp
    show "network_fee_cache st b = Some (forward_entry env b)" using Some e by simp
  qed (use assms in simp_all)
qed

lemma cache_inv_cong:
  "cache_inv env st \<Longrightarrow> network_fee_cache st' = network_fee_cache st
     \<Longrightarrow> fee_lookups st' = fee_lookups st \<Longrightarrow> cache_inv env st'"
  by (simp add: cache_inv_def)

lemma evaluate_and_record_inv:
  assumes ci: "cache_inv env st" and ei: "eval_inv env st"
    and d: "d = AtoB \<and> tbuy = ta \<and> tsell = tb
            \<or> d = BtoA \<and> network_fee_cache st b \<noteq> None \<and> tbuy = tb \<and> tsell = ta"
    and b: "b = base_of symb"
    and ta: "taker_a env symb = Some ta" and tb: "taker_b env symb = Some tb"
  shows "cache_inv env (evaluate_and_record env d symb b ba sa amt tbuy tsell st)
    \<and> eval_inv env (evaluate_and_record env d symb b ba sa amt tbuy tsell st)
    \<and> network_fee_cache (evaluate_and_record env d symb b ba sa amt tbuy tsell st) b \<noteq> None"
proof -
  from d have "d = AtoB \<or> network_fee_cache st b \<noteq> None" by blast
  from lookup_inv [OF ci this] obtain st1 where
    lk: "lookup_network_fee env d b st = (st1, forward_entry env b)"
    and ci1: "cache_inv env st1"
    and c1: "network_fee_cache st1 b = Some (forward_entry env b)"
    and ev1: "evaluated st1 = evaluated st" and op1: "opportunities st1 = opportunities st"
    and mono: "\<And>c. network_fee_cache st c \<noteq> None \<Longrightarrow> network_fee_cache st1 c \<noteq> None"
    by blast
  define profit where
    "profit = estimate_fee_aware_profit_pct ba sa amt tbuy tsell (snd (forward_entry env b))"
  define opp where
    "opp = \<lparr>symbol = symb,
            buy_exchange = (case d of AtoB \<Rightarrow> ex_a_id env | BtoA \<Rightarrow> ex_b_id env),
            sell_exchange = (case d of AtoB \<Rightarrow> ex_b_id env | BtoA \<Rightarrow> ex_a_id env),
            profit_pct = profit, base_amount = amt, buy_price = ba,
            sell_price = sa, network = fst (forward_entry env b)\<rparr>"
  define st2 where "st2 = st1\<lparr>evaluated := evaluated st1 @ [(d, opp)]\<rparr>"
  define st3 where "st3 = (if profit \<ge> min_profit_pct (cfg env)
                           then st2\<lparr>opportunities := opportunities st2 @ [opp]\<rparr> else st2)"
  have res: "evaluate_and_record env d symb b ba sa amt tbuy tsell st = st3"
    unfolding evaluate_and_record_def lk st3_def st2_def opp_def profit_def
    by (simp add: Let_def split: prod.splits)
  have cache3: "network_fee_cache st3 = network_fee_cache st1"
    and look3: "fee_lookups st3 = fee_lookups st1"
    and ev3: "evaluated st3 = evaluated st @ [(d, opp)]"
    and op3: "opportunities st3 = (if profit \<ge> min_profit_pct (cfg env)
                                   then opportunities st @ [opp] else opportunities st)"
    unfolding st3_def st2_def by (simp_all add: ev1 op1)
  have new: "network_fee_cache st3 (base_of (symbol opp)) \<noteq> None
       \<and> network opp = fst (forward_entry env (base_of (symbol opp)))
       \<and> profit_from env d opp (snd (forward_entry env (base_of (symbol opp))))"
  proof -
    have s: "symbol opp = symb" "network opp = fst (forward_entry env b)"
      "profit_pct opp = profit" "buy_price opp = ba" "sell_price opp = sa" "base_amount opp = amt"
      unfolding opp_def by simp_all
    have "profit_from env d opp (snd (forward_entry env b))"
      unfolding profit_from_def s using ta tb d by (auto simp: profit_def)
    then show ?thesis unfolding s cache3 b [symmetric] using c1 by simp
  qed
  have old: "network_fee_cache st3 (base_of (symbol (snd x))) \<noteq> None
       \<and> network (snd x) = fst (forward_entry env (base_of (symbol (snd x))))
       \<and> profit_from env (fst x) (snd x) (snd (forward_entry env (base_of (symbol (snd x)))))"
    if "x \<in> set (evaluated st)" for x
    using ei that mono unfolding eval_inv_def cache3 by blast
  have pp: "profit_pct opp = profit" unfolding opp_def by simp
  have "opportunities st3
       = filter (\<lambda>opp. min_profit_pct (cfg env) \<le> profit_pct opp) (map snd (evaluated st3))"
    unfolding ev3 op3 using ei by (simp add: eval_inv_def pp)
  moreover have "\<forall>x\<in>set (evaluated st3).
           network_fee_cache st3 (base_of (symbol (snd x))) \<noteq> None
           \<and> network (snd x) = fst (forward_entry env (base_of (symbol (snd x))))
           \<and> profit_from env (fst x) (snd x) (snd (forward_entry env (base_of (symbol (snd x)))))"
    unfolding ev3 using new old by simp
  ultimately have "eval_inv env st3" unfolding eval_inv_def by (rule conjI)
  moreover have "cache_inv env st3" by (rule cache_inv_cong [OF ci1 cache3 look3])
  moreover have "network_fee_cache st3 b \<noteq> None" unfolding cache3 using c1 by simp
  ultimately show ?thesis unfolding res by blast
qed

lemma reverse_direction_inv:
  assumes "cache_inv env st" "eval_inv env st" "network_fee_cache st b \<noteq> None"
    and "b = base_of symb" "taker_a env symb = Some ta" "taker_b env symb = Some tb"
    and r: "reverse_direction env symb b ob_a ob_b ta tb st = Inr st'"
  shows "cache_inv env st' \<and> eval_inv env st'"
proof -
  from r consider "st' = st"
    | ba bf sa sf where "st' = evaluate_and_record env BtoA symb b ba sa (min bf sf) tb ta st"
    by (auto simp: reverse_direction_def Let_def split: if_splits sum.splits option.splits)
  then show ?thesis
  proof cases
    case 1
    with assms(1,2) show ?thesis by simp
  next
    case 2
    have "BtoA = AtoB \<and> tb = ta \<and> ta = tb
          \<or> BtoA = BtoA \<and> network_fee_cache st b \<noteq> None \<and> tb = tb \<and> ta = ta"
      using assms(3) by simp
    from evaluate_and_record_inv [OF assms(1,2) this assms(4,5,6)]
    show ?thesis unfolding 2 by blast
  qed
qed

lemma forward_direction_cases:
  assumes f: "forward_direction env symb b ob_a ob_b ta tb st = Inr st'"
  obtains "st' = st"
    | ba bf sa sf where
        "reverse_direction env symb b ob_a ob_b ta tb
           (evaluate_and_record env AtoB symb b ba sa (min bf sf) ta tb st) = Inr st'"
proof (cases "asks ob_a = [] \<or> bids ob_b = []")
  case True
  with f have "st' = st" by (simp add: forward_direction_def)
  then show ?thesis by (rule that(1))
next
  case ne: False
  show ?thesis
  proof (cases "size_and_fill (min_notional_usd (cfg env)) (asks ob_a) (bids ob_b)")
    case (Inl e)
    with f ne show ?thesis by (simp add: forward_direction_def)
  next
    case (Inr r)
    show ?thesis
    proof (cases r)
      case None
      with f ne Inr have "st' = st" by (simp add: forward_direction_def)
      then show ?thesis by (rule that(1))
    next
      case (Some p)
      obtain ba bf sa sf where p: "p = ((ba, bf), (sa, sf))" by (metis surj_pair)
      show ?thesis
      proof (cases "min bf sf \<le> 0")
        case True
        with f ne Inr Some p have "st' = st" by (simp add: forward_direction_def)
        then show ?thesis by (rule that(1))
      next
        case False
        with f ne Inr Some p have
          "reverse_direction env symb b ob_a ob_b ta tb
             (evaluate_and_record env AtoB symb b ba sa (min bf sf) ta tb st) = Inr st'"
          by (simp add: forward_direction_def)
        then show ?thesis by (rule that(2))
      qed
    qed
  qed
qed

lemma forward_direction_inv:
  assumes ci: "cache_inv env st" and ei: "eval_inv env st"
    and b: "b = base_of symb" and ta: "taker_a env symb = Some ta"
    and tb: "taker_b env symb = Some tb"
    and f: "forward_direction env symb b ob_a ob_b ta tb st = Inr st'"
  shows "cache_inv env st' \<and> eval_inv env st'"
  using f
proof (cases rule: forward_direction_cases)
  case 1
  with ci ei show ?thesis by simp
next
  case (2 ba bf sa sf)
  let ?st1 = "evaluate_and_record env AtoB symb b ba sa (min bf sf) ta tb st"
  have d: "AtoB = AtoB \<and> ta = ta \<and> tb = tb
        \<or> AtoB = BtoA \<and> network_fee_cache st b \<noteq> None \<and> ta = tb \<and> tb = ta" by simp
  from evaluate_and_record_inv [OF ci ei d b ta tb, of ba sa "min bf sf"]
  have "cache_inv env ?st1" "eval_inv env ?st1" "network_fee_cache ?st1 b \<noteq> None"
    by blast+
  from reverse_direction_inv [OF this b ta tb 2] show ?thesis .
qed

lemma scan_symbol_cases:
  assumes "scan_symbol env st symb = Inr st'"
  obtains "st' = st"
    | b q ma mb ob_a ob_b where
        "split_on CHR ''/'' symb = [b, q]"
        "index_markets (e_markets_a env) symb = Some ma"
        "index_markets (e_markets_b env) symb = Some mb"
        "forward_direction env symb b ob_a ob_b
           (get_taker_fee_for_market (ex_a_id env) ma)
           (get_taker_fee_for_market (ex_b_id env) mb) st = Inr st'"
proof (cases "e_books_a env symb")
  case None
  with assms have "st' = st" by (simp add: scan_symbol_def)
  then show ?thesis by (rule that(1))
next
  case oa: (Some ob_a)
  show ?thesis
  proof (cases "e_books_b env symb")
    case None
    with assms oa have "st' = st" by (simp add: scan_symbol_def)
    then show ?thesis by (rule that(1))
  next
    case ob: (Some ob_b)
    from assms oa ob obtain b q where sp: "split_on CHR ''/'' symb = [b, q]"
      by (auto simp: scan_symbol_def split: list.splits)
    show ?thesis
    proof (cases "upper q \<notin> set (map upper (preferred_quotes (cfg env)))")
      case True
      with assms oa ob sp have "st' = st" by (simp add: scan_symbol_def)
      then show ?thesis by (rule that(1))
    next
      case False
      with assms oa ob sp obtain ma mb where
        "index_markets (e_markets_a env) symb = Some ma"
        "index_markets (e_markets_b env) symb = Some mb"
        "forward_direction env symb b ob_a ob_b
           (get_taker_fee_for_market (ex_a_id env) ma)
           (get_taker_fee_for_market (ex_b_id env) mb) st = Inr st'"
        by (auto simp: scan_symbol_def split: option.splits)
      with sp show ?thesis by (rule that(2))
    qed
  qed
qed

lemma scan_symbol_inv:
  assumes ci: "cache_inv env st" and ei: "eval_inv env st"
    and s: "scan_symbol env st symb = Inr st'"
  shows "cache_inv env st' \<and> eval_inv env st'"
  using s
proof (cases rule: scan_symbol_cases)
  case 1
  with ci ei show ?thesis by simp
next
  case (2 b q ma mb ob_a ob_b)
  have b: "b = base_of symb" using 2(1) by (simp add: base_of_def)
  have ta: "taker_a env symb = Some (get_taker_fee_for_market (ex_a_id env) ma)"
    using 2(2) by (simp add: taker_a_def)
  have tb: "taker_b env symb = Some (get_taker_fee_for_market (ex_b_id env) mb)"
    using 2(3) by (simp add: taker_b_def)
  from forward_direction_inv [OF ci ei b ta tb 2(4)] show ?thesis .
qed

lemma scan_loop_inv:
  "cache_inv env st \<Longrightarrow> eval_inv env st \<Longrightarrow> scan_loop env st syms = Inr st'
     \<Longrightarrow> cache_inv env st' \<and> eval_inv env st'"
proof (induction syms arbitrary: st)
  case Nil
  then show ?case by simp
next
  case (Cons symb rest)
  from Cons.prems(3) obtain st1 where s1: "scan_symbol env st symb = Inr st1"
    and l: "scan_loop env st1 rest = Inr st'"
    by (auto split: sum.splits)
  from scan_symbol_inv [OF Cons.prems(1,2) s1] have "cache_inv env st1" "eval_inv env st1"
    by blast+
  from Cons.IH [OF this l] show ?case .
qed

lemma scan_pass_inv:
  "scan_pass env = Inr st \<Longrightarrow> cache_inv env st \<and> eval_inv env st"
  unfolding scan_pass_def by (rule scan_loop_inv [OF cache_inv_initial eval_inv_initial])

lemma sorted_desc_sort_key:
  "sorted_wrt (\<lambda>x y. profit_pct y \<le> profit_pct x) (sort_key (\<lambda>opp. - profit_pct opp) xs)"
proof -
  have "sorted (map (\<lambda>opp. - profit_pct opp) (sort_key (\<lambda>opp. - profit_pct opp) xs))"
    by (rule sorted_sort_key)
  then show ?thesis by (simp add: sorted_map)
qed

text \<open>
  Claim C3. After a scan pass, the recorded opportunities are exactly the evaluated ones,
  in the order of evaluation, whose computed fee-aware profit percent is at least the
  configured minimum; that profit is the one \<^verbatim>\<open>estimate_fee_aware_profit_pct\<close> gives for the
  Opportunity's prices and amount; and \<^verbatim>\<open>scan_two_exchanges\<close> returns a rearrangement of
  the recorded list that is sorted by profit percent in descending order.
\<close>

theorem scan_records_iff_profitable:
  assumes "scan_pass env = Inr st"
  shows "opportunities st
           = filter (\<lambda>opp. min_profit_pct (cfg env) \<le> profit_pct opp) (map snd (evaluated st))
    \<and> (\<forall>x\<in>set (evaluated st).
          profit_from env (fst x) (snd x) (snd (forward_entry env (base_of (symbol (snd x))))))
    \<and> (\<exists>opps. scan_two_exchanges env = Inr opps \<and> mset opps = mset (opportunities st)
          \<and> sorted_wrt (\<lambda>x y. profit_pct y \<le> profit_pct x) opps)"
proof -
  from scan_pass_inv [OF assms] have ei: "eval_inv env st" by blast
  let ?symbols = "find_common_symbols (e_markets_a env) (e_markets_b env)
                    (Some (preferred_quotes (cfg env)))"
  have loop: "scan_loop env initial_state ?symbols = Inr st"
    using assms by (simp add: scan_pass_def)
  have "\<exists>opps. scan_two_exchanges env = Inr opps \<and> mset opps = mset (opportunities st)
          \<and> sorted_wrt (\<lambda>x y. profit_pct y \<le> profit_pct x) opps"
  proof (cases "?symbols = []")
    case True
    with loop have "st = initial_state" by simp
    then have "opportunities st = []" by (simp add: initial_state_def)
    with True show ?thesis by (simp add: scan_two_exchanges_def)
  next
    case False
    then have "scan_two_exchanges env
               = Inr (sort_key (\<lambda>opp. - profit_pct opp) (opportunities st))"
      using loop by (simp add: scan_two_exchanges_def Let_def)
    then show ?thesis using sorted_desc_sort_key by simp
  qed
  with ei show ?thesis unfolding eval_inv_def by blast
qed

theorem scan_records_iff_profitable_witness:
  "scan_pass env1 = Inr (projr (scan_pass env1))
   \<and> map (\<lambda>x. (symbol (snd x), fst x, profit_pct (snd x))) (evaluated (projr (scan_pass env1)))
       = [(''BTC/USDT'', AtoB, 890 / 91), (''BTC/USDT'', BtoA, - (1000 / 91)),
          (''ETH/USDT'', AtoB, - (28699 / 2275)), (''ETH/USDT'', BtoA, 10637 / 1300)]
   \<and> opportunities (projr (scan_pass env1))
       = filter (\<lambda>opp. min_profit_pct (cfg env1) \<le> profit_pct opp)
           (map snd (evaluated (projr (scan_pass env1))))
   \<and> scan_two_exchanges env1 =
       Inr [\<lparr>symbol = ''BTC/USDT'', buy_exchange = ''binance'', sell_exchange = ''kucoin'',
               profit_pct = 890 / 91, base_amount = 1, buy_price = 100, sell_price = 110,
               network = None\<rparr>,
            \<lparr>symbol = ''ETH/USDT'', buy_exchange = ''kucoin'', sell_exchange = ''binance'',
               profit_pct = 10637 / 1300, base_amount = 20 / 9, buy_price = 45,
               sell_price = 49, network = Some ''ERC20''\<rparr>]"
proof -
  have "\<not> isl (scan_pass env1)" by code_simp
  then have h: "scan_pass env1 = Inr (projr (scan_pass env1))"
    by (cases "scan_pass env1") simp_all
  have e: "map (\<lambda>x. (symbol (snd x), fst x, profit_pct (snd x))) (evaluated (projr (scan_pass env1)))
       = [(''BTC/USDT'', AtoB, 890 / 91), (''BTC/USDT'', BtoA, - (1000 / 91)),
          (''ETH/USDT'', AtoB, - (28699 / 2275)), (''ETH/USDT'', BtoA, 10637 / 1300)]"
    by code_simp
  have r: "scan_two_exchanges env1 =
       Inr [\<lparr>symbol = ''BTC/USDT'', buy_exchange = ''binance'', sell_exchange = ''kucoin'',
               profit_pct = 890 / 91, base_amount = 1, buy_price = 100, sell_price = 110,
               network = None\<rparr>,
            \<lparr>symbol = ''ETH/USDT'', buy_exchange = ''kucoin'', sell_exchange = ''binance'',
               profit_pct = 10637 / 1300, base_amount = 20 / 9, buy_price = 45,
               sell_price = 49, network = Some ''ERC20''\<rparr>]"
    by code_simp
  from scan_records_iff_profitable [OF h] have
    "opportunities (projr (scan_pass env1))
       = filter (\<lambda>opp. min_profit_pct (cfg env1) \<le> profit_pct opp)
           (map snd (evaluated (projr (scan_pass env1))))"
    by (rule conjunct1)
  with h e r show ?thesis by (intro conjI)
qed

lemma evaluate_and_record_fields:
  assumes "lookup_network_fee env d b st = (st1, e)"
  shows "network_fee_cache (evaluate_and_record env d symb b ba sa amt t1 t2 st)
           = network_fee_cache st1"
    and "fee_lookups (evaluate_and_record env d symb b ba sa amt t1 t2 st) = fee_lookups st1"
    and "evaluated (evaluate_and_record env d symb b ba sa amt t1 t2 st)
           = evaluated st1 @
               [(d, \<lparr>symbol = symb,
                      buy_exchange = (case d of AtoB \<Rightarrow> ex_a_id env | BtoA \<Rightarrow> ex_b_id env),
                      sell_exchange = (case d of AtoB \<Rightarrow> ex_b_id env | BtoA \<Rightarrow> ex_a_id env),
                      profit_pct = estimate_fee_aware_profit_pct ba sa amt t1 t2 (snd e),
                      base_amount = amt, buy_price = ba, sell_price = sa, network = fst e\<rparr>)]"
  by (cases e; simp add: evaluate_and_record_def assms Let_def)+

lemma lookup_forward_fields:
  assumes "cache_inv env st"
  obtains st1 where "lookup_network_fee env AtoB b st = (st1, forward_entry env b)"
    "fee_lookups st1
       = fee_lookups st @ (if network_fee_cache st b = None then [(AtoB, b)] else [])"
    "network_fee_cache st1 b = Some (forward_entry env b)"
    "evaluated st1 = evaluated st" "cache_inv env st1"
proof (cases "network_fee_cache st b")
  case None
  let ?st1 = "st\<lparr>network_fee_cache := (network_fee_cache st)(b \<mapsto> forward_entry env b),
                  fee_lookups := fee_lookups st @ [(AtoB, b)]\<rparr>"
  show ?thesis
  proof (rule that [of ?st1])
    show "lookup_network_fee env AtoB b st = (?st1, forward_entry env b)"
      by (rule lookup_forward_miss [OF None])
    show "cache_inv env ?st1" by (rule cache_inv_miss [OF assms None])
  qed (simp_all add: None)
next
  case (Some e)
  with assms have e: "e = forward_entry env b" unfolding cache_inv_def by blast
  show ?thesis
  proof (rule that [of st])
    show "lookup_network_fee env AtoB b st = (st, forward_entry env b)"
      using lookup_cached [OF Some] e by simp
  qed (use assms Some e in simp_all)
qed

text \<open>
  Claim C4. \<^verbatim>\<open>find_cheapest_common_network_fee\<close> is called at most once for each base
  asset, in the forward direction (exchange A, exchange B), and the reverse direction uses
  the cached result. In detail:

  \<^item> an evaluation in the reverse direction of a base asset that is cached makes no call and
    leaves the cache as it is; the Opportunity it evaluates carries the network name of the
    cached entry, and its profit is computed with the withdrawal fee of that entry;
  \<^item> the reverse direction of a symbol does evaluate, in that way, whenever both of its books
    are non-empty and its sizing succeeds, and it does nothing else than that or leave the
    state unchanged;
  \<^item> for a symbol whose two directions are both evaluated, the only call that can be made is
    the forward one, made exactly when the base asset is not cached yet; afterwards the
    cache holds the forward entry, and both Opportunities, the forward and the reverse one,
    carry its network name and are costed with its fee;
  \<^item> after the symbols of any list have been scanned from the initial state, and after a
    scan pass, no base asset has been called for twice, every call was a forward one, and
    the bases called for are exactly the cached ones; after a scan pass every Opportunity
    evaluated in the reverse direction finds the forward entry of its base asset in the
    cache and takes its network name and its withdrawal fee from it.
\<close>

theorem fee_lookup_once_per_base:
  "(network_fee_cache st b = Some e \<longrightarrow>
      lookup_network_fee env BtoA b st = (st, e)
      \<and> fee_lookups (evaluate_and_record env BtoA symb b ba sa amt tb ta st) = fee_lookups st
      \<and> network_fee_cache (evaluate_and_record env BtoA symb b ba sa amt tb ta st)
          = network_fee_cache st
      \<and> evaluated (evaluate_and_record env BtoA symb b ba sa amt tb ta st)
          = evaluated st @
              [(BtoA, \<lparr>symbol = symb, buy_exchange = ex_b_id env, sell_exchange = ex_a_id env,
                        profit_pct = estimate_fee_aware_profit_pct ba sa amt tb ta (snd e),
                        base_amount = amt, buy_price = ba, sell_price = sa, network = fst e\<rparr>)])
   \<and> (asks ob_b \<noteq> [] \<and> bids ob_a \<noteq> []
        \<and> size_and_fill (min_notional_usd (cfg env)) (asks ob_b) (bids ob_a)
            = Inr (Some ((ba, bf), (sa, sf)))
      \<longrightarrow> reverse_direction env symb b ob_a ob_b ta tb st
            = Inr (evaluate_and_record env BtoA symb b ba sa (min bf sf) tb ta st))
   \<and> (\<forall>st'. reverse_direction env symb b ob_a ob_b ta tb st = Inr st' \<longrightarrow>
         st' = st
         \<or> (\<exists>ba bf sa sf. st' = evaluate_and_record env BtoA symb b ba sa (min bf sf) tb ta st))
   \<and> (cache_inv env st
        \<and> asks ob_a \<noteq> [] \<and> bids ob_b \<noteq> []
        \<and> size_and_fill (min_notional_usd (cfg env)) (asks ob_a) (bids ob_b)
            = Inr (Some ((fa, ff), (ga, gf)))
        \<and> 0 < min ff gf
        \<and> asks ob_b \<noteq> [] \<and> bids ob_a \<noteq> []
        \<and> size_and_fill (min_notional_usd (cfg env)) (asks ob_b) (bids ob_a)
            = Inr (Some ((ba, bf), (sa, sf)))
      \<longrightarrow> (\<exists>st'. forward_direction env symb b ob_a ob_b ta tb st = Inr st'
            \<and> cache_inv env st'
            \<and> fee_lookups st'
                = fee_lookups st @ (if network_fee_cache st b = None then [(AtoB, b)] else [])
            \<and> network_fee_cache st' b = Some (forward_entry env b)
            \<and> evaluated st'
                = evaluated st @
                    [(AtoB, \<lparr>symbol = symb, buy_exchange = ex_a_id env,
                              sell_exchange = ex_b_id env,
                              profit_pct = estimate_fee_aware_profit_pct fa ga (min ff gf) ta tb
                                             (snd (forward_entry env b)),
                              base_amount = min ff gf, buy_price = fa, sell_price = ga,
                              network = fst (forward_entry env b)\<rparr>),
                     (BtoA, \<lparr>symbol = symb, buy_exchange = ex_b_id env,
                              sell_exchange = ex_a_id env,
                              profit_pct = estimate_fee_aware_profit_pct ba sa (min bf sf) tb ta
                                             (snd (forward_entry env b)),
                              base_amount = min bf sf, buy_price = ba, sell_price = sa,
                              network = fst (forward_entry env b)\<rparr>)]))
   \<and> (scan_loop env initial_state syms = Inr s_loop \<longrightarrow>
        distinct (map snd (fee_lookups s_loop))
        \<and> (\<forall>l\<in>set (fee_lookups s_loop). fst l = AtoB)
        \<and> snd ` set (fee_lookups s_loop) = dom (network_fee_cache s_loop))
   \<and> (scan_pass env = Inr s_pass \<longrightarrow>
        distinct (map snd (fee_lookups s_pass))
        \<and> (\<forall>l\<in>set (fee_lookups s_pass). fst l = AtoB)
        \<and> snd ` set (fee_lookups s_pass) = dom (network_fee_cache s_pass)
        \<and> (\<forall>x\<in>set (evaluated s_pass). fst x = BtoA \<longrightarrow>
              network_fee_cache s_pass (base_of (symbol (snd x)))
                = Some (forward_entry env (base_of (symbol (snd x))))
              \<and> network (snd x) = fst (forward_entry env (base_of (symbol (snd x))))
              \<and> profit_from env BtoA (snd x)
                    (snd (forward_entry env (base_of (symbol (snd x)))))))"
proof (intro conjI impI allI)
  assume c: "network_fee_cache st b = Some e"
  show lk: "lookup_network_fee env BtoA b st = (st, e)" by (rule lookup_cached [OF c])
  show "fee_lookups (evaluate_and_record env BtoA symb b ba sa amt tb ta st) = fee_lookups st"
    by (rule evaluate_and_record_fields(2) [OF lk])
  show "network_fee_cache (evaluate_and_record env BtoA symb b ba sa amt tb ta st)
          = network_fee_cache st"
    by (rule evaluate_and_record_fields(1) [OF lk])
  show "evaluated (evaluate_and_record env BtoA symb b ba sa amt tb ta st)
          = evaluated st @
              [(BtoA, \<lparr>symbol = symb, buy_exchange = ex_b_id env, sell_exchange = ex_a_id env,
                        profit_pct = estimate_fee_aware_profit_pct ba sa amt tb ta (snd e),
                        base_amount = amt, buy_price = ba, sell_price = sa, network = fst e\<rparr>)]"
    using evaluate_and_record_fields(3) [OF lk, of symb ba sa amt tb ta] by simp
next
  assume "asks ob_b \<noteq> [] \<and> bids ob_a \<noteq> []
        \<and> size_and_fill (min_notional_usd (cfg env)) (asks ob_b) (bids ob_a)
            = Inr (Some ((ba, bf), (sa, sf)))"
  then show "reverse_direction env symb b ob_a ob_b ta tb st
            = Inr (evaluate_and_record env BtoA symb b ba sa (min bf sf) tb ta st)"
    by (simp add: reverse_direction_def)
next
  fix st' assume "reverse_direction env symb b ob_a ob_b ta tb st = Inr st'"
  then show "st' = st
         \<or> (\<exists>ba bf sa sf. st' = evaluate_and_record env BtoA symb b ba sa (min bf sf) tb ta st)"
    by (auto simp: reverse_direction_def Let_def split: if_splits sum.splits option.splits)
next
  assume a: "cache_inv env st
        \<and> asks ob_a \<noteq> [] \<and> bids ob_b \<noteq> []
        \<and> size_and_fill (min_notional_usd (cfg env)) (asks ob_a) (bids ob_b)
            = Inr (Some ((fa, ff), (ga, gf)))
        \<and> 0 < min ff gf
        \<and> asks ob_b \<noteq> [] \<and> bids ob_a \<noteq> []
        \<and> size_and_fill (min_notional_usd (cfg env)) (asks ob_b) (bids ob_a)
            = Inr (Some ((ba, bf), (sa, sf)))"
  then have ci: "cache_inv env st" by blast
  let ?f = "evaluate_and_record env AtoB symb b fa ga (min ff gf) ta tb st"
  let ?r = "evaluate_and_record env BtoA symb b ba sa (min bf sf) tb ta ?f"
  from lookup_forward_fields [OF ci, of b] obtain stl where
    lk: "lookup_network_fee env AtoB b st = (stl, forward_entry env b)"
    and ll: "fee_lookups stl
       = fee_lookups st @ (if network_fee_cache st b = None then [(AtoB, b)] else [])"
    and lc: "network_fee_cache stl b = Some (forward_entry env b)"
    and le: "evaluated stl = evaluated st" and lci: "cache_inv env stl"
    by blast
  have fc: "network_fee_cache ?f = network_fee_cache stl"
    and fl: "fee_lookups ?f = fee_lookups stl"
    and fe: "evaluated ?f = evaluated st @
               [(AtoB, \<lparr>symbol = symb, buy_exchange = ex_a_id env, sell_exchange = ex_b_id env,
                         profit_pct = estimate_fee_aware_profit_pct fa ga (min ff gf) ta tb
                                        (snd (forward_entry env b)),
                         base_amount = min ff gf, buy_price = fa, sell_price = ga,
                         network = fst (forward_entry env b)\<rparr>)]"
    using evaluate_and_record_fields [OF lk, of symb fa ga "min ff gf" ta tb] le by simp_all
  have rk: "lookup_network_fee env BtoA b ?f = (?f, forward_entry env b)"
    by (rule lookup_cached) (simp add: fc lc)
  have rc: "network_fee_cache ?r = network_fee_cache stl"
    and rl: "fee_lookups ?r = fee_lookups stl"
    and re: "evaluated ?r = evaluated ?f @
               [(BtoA, \<lparr>symbol = symb, buy_exchange = ex_b_id env, sell_exchange = ex_a_id env,
                         profit_pct = estimate_fee_aware_profit_pct ba sa (min bf sf) tb ta
                                        (snd (forward_entry env b)),
                         base_amount = min bf sf, buy_price = ba, sell_price = sa,
                         network = fst (forward_entry env b)\<rparr>)]"
    using evaluate_and_record_fields [OF rk, of symb ba sa "min bf sf" tb ta] fc fl by simp_all
  from a have pos: "\<not> min ff gf \<le> 0" by linarith
  have run: "forward_direction env symb b ob_a ob_b ta tb st = Inr ?r"
    using a pos by (simp add: forward_direction_def reverse_direction_def del: min_less_iff_conj)
  have "cache_inv env ?r" by (rule cache_inv_cong [OF lci rc rl])
  with run rl ll rc lc re fe
  show "\<exists>st'. forward_direction env symb b ob_a ob_b ta tb st = Inr st'
            \<and> cache_inv env st'
            \<and> fee_lookups st'
                = fee_lookups st @ (if network_fee_cache st b = None then [(AtoB, b)] else [])
            \<and> network_fee_cache st' b = Some (forward_entry env b)
            \<and> evaluated st'
                = evaluated st @
                    [(AtoB, \<lparr>symbol = symb, buy_exchange = ex_a_id env,
                              sell_exchange = ex_b_id env,
                              profit_pct = estimate_fee_aware_profit_pct fa ga (min ff gf) ta tb
                                             (snd (forward_entry env b)),
                              base_amount = min ff gf, buy_price = fa, sell_price = ga,
                              network = fst (forward_entry env b)\<rparr>),
                     (BtoA, \<lparr>symbol = symb, buy_exchange = ex_b_id env,
                              sell_exchange = ex_a_id env,
                              profit_pct = estimate_fee_aware_profit_pct ba sa (min bf sf) tb ta
                                             (snd (forward_entry env b)),
                              base_amount = min bf sf, buy_price = ba, sell_price = sa,
                              network = fst (forward_entry env b)\<rparr>)]"
    by (intro exI [of _ ?r]) simp
next
  assume "scan_loop env initial_state syms = Inr s_loop"
  from scan_loop_inv [OF cache_inv_initial eval_inv_initial this]
  have ci: "cache_inv env s_loop" by blast
  show "distinct (map snd (fee_lookups s_loop))" using ci unfolding cache_inv_def by blast
  show "\<forall>l\<in>set (fee_lookups s_loop). fst l = AtoB" using ci unfolding cache_inv_def by blast
  show "snd ` set (fee_lookups s_loop) = dom (network_fee_cache s_loop)"
    using ci unfolding cache_inv_def by simp
next
  assume p: "scan_pass env = Inr s_pass"
  from scan_pass_inv [OF p] have ci: "cache_inv env s_pass" and ei: "eval_inv env s_pass"
    by blast+
  show "distinct (map snd (fee_lookups s_pass))" using ci unfolding cache_inv_def by blast
  show "\<forall>l\<in>set (fee_lookups s_pass). fst l = AtoB" using ci unfolding cache_inv_def by blast
  show "snd ` set (fee_lookups s_pass) = dom (network_fee_cache s_pass)"
    using ci unfolding cache_inv_def by simp
  have entry: "network_fee_cache s_pass c = Some (forward_entry env c)"
    if "network_fee_cache s_pass c \<noteq> None" for c
    using ci that unfolding cache_inv_def by auto
  show "\<forall>x\<in>set (evaluated s_pass). fst x = BtoA \<longrightarrow>
          network_fee_cache s_pass (base_of (symbol (snd x)))
            = Some (forward_entry env (base_of (symbol (snd x))))
          \<and> network (snd x) = fst (forward_entry env (base_of (symbol (snd x))))
          \<and> profit_from env BtoA (snd x) (snd (forward_entry env (base_of (symbol (snd x)))))"
    using ei entry unfolding eval_inv_def by metis
qed

theorem fee_lookup_once_per_base_witness:
  "scan_pass env1 = Inr (projr (scan_pass env1))
   \<and> fee_lookups (projr (scan_pass env1)) = [(AtoB, ''BTC''), (AtoB, ''ETH'')]
   \<and> distinct (map snd (fee_lookups (projr (scan_pass env1))))
   \<and> find_cheapest_common_network_fee (e_set_order env1) (e_fees_a env1) (e_fees_b env1) ''ETH''
       = Some (''ERC20'', 1 / 100)
   \<and> find_cheapest_common_network_fee (e_set_order env1) (e_fees_b env1) (e_fees_a env1) ''ETH''
       = Some (''ERC20'', 2 / 100)
   \<and> network_fee_cache (projr (scan_pass env1)) ''ETH'' = Some (Some ''ERC20'', 1 / 100)
   \<and> evaluated (projr (scan_pass env1)) ! 3
       = (BtoA, \<lparr>symbol = ''ETH/USDT'', buy_exchange = ''kucoin'', sell_exchange = ''binance'',
                 profit_pct = 10637 / 1300, base_amount = 20 / 9, buy_price = 45,
                 sell_price = 49, network = Some ''ERC20''\<rparr>)
   \<and> estimate_fee_aware_profit_pct 45 49 (20 / 9) (1 / 1000) (1 / 1000) (1 / 100) = 10637 / 1300
   \<and> estimate_fee_aware_profit_pct 45 49 (20 / 9) (1 / 1000) (1 / 1000) (2 / 100) \<noteq> 10637 / 1300
   \<and> lookup_network_fee env1 BtoA ''ETH'' (projr (scan_pass env1))
       = (projr (scan_pass env1), (Some ''ERC20'', 1 / 100))
   \<and> cache_inv env1 initial_state
   \<and> (\<exists>st'. forward_direction env1 ''ETH/USDT'' ''ETH'' (level_book 50 49) (level_book 45 44)
               (1 / 1000) (1 / 1000) initial_state = Inr st'
          \<and> fee_lookups st' = [(AtoB, ''ETH'')]
          \<and> network_fee_cache st' ''ETH'' = Some (Some ''ERC20'', 1 / 100)
          \<and> evaluated st'
              = [(AtoB, \<lparr>symbol = ''ETH/USDT'', buy_exchange = ''binance'',
                         sell_exchange = ''kucoin'',
                         profit_pct = estimate_fee_aware_profit_pct 50 44 2 (1 / 1000) (1 / 1000)
                                        (1 / 100),
                         base_amount = 2, buy_price = 50, sell_price = 44,
                         network = Some ''ERC20''\<rparr>),
                 (BtoA, \<lparr>symbol = ''ETH/USDT'', buy_exchange = ''kucoin'',
                         sell_exchange = ''binance'',
                         profit_pct = estimate_fee_aware_profit_pct 45 49 (20 / 9) (1 / 1000)
                                        (1 / 1000) (1 / 100),
                         base_amount = 20 / 9, buy_price = 45, sell_price = 49,
                         network = Some ''ERC20''\<rparr>)])
   \<and> reverse_direction env1 ''ETH/USDT'' ''ETH'' (level_book 50 49) (level_book 45 44)
         (1 / 1000) (1 / 1000) (projr (scan_pass env1))
       = Inr (evaluate_and_record env1 BtoA ''ETH/USDT'' ''ETH'' 45 49 (20 / 9)
                (1 / 1000) (1 / 1000) (projr (scan_pass env1)))
   \<and> fee_lookups (evaluate_and_record env1 BtoA ''ETH/USDT'' ''ETH'' 45 49 (20 / 9)
                (1 / 1000) (1 / 1000) (projr (scan_pass env1)))
       = [(AtoB, ''BTC''), (AtoB, ''ETH'')]
   \<and> (evaluate_and_record env1 BtoA ''ETH/USDT'' ''ETH'' 45 49 (20 / 9) (1 / 1000) (1 / 1000)
         (projr (scan_pass env1)) = projr (scan_pass env1)
       \<or> (\<exists>ba bf sa sf.
             evaluate_and_record env1 BtoA ''ETH/USDT'' ''ETH'' 45 49 (20 / 9) (1 / 1000)
               (1 / 1000) (projr (scan_pass env1))
             = evaluate_and_record env1 BtoA ''ETH/USDT'' ''ETH'' ba sa (min bf sf) (1 / 1000)
                 (1 / 1000) (projr (scan_pass env1))))
   \<and> scan_loop env1 initial_state [''ETH/USDT'']
       = Inr (projr (scan_loop env1 initial_state [''ETH/USDT'']))
   \<and> fee_lookups (projr (scan_loop env1 initial_state [''ETH/USDT''])) = [(AtoB, ''ETH'')]
   \<and> distinct (map snd (fee_lookups (projr (scan_loop env1 initial_state [''ETH/USDT'']))))"
proof -
  let ?st = "projr (scan_pass env1)"
  have "\<not> isl (scan_pass env1)" by code_simp
  then have h: "scan_pass env1 = Inr ?st"
    by (cases "scan_pass env1") simp_all
  have l: "fee_lookups ?st = [(AtoB, ''BTC''), (AtoB, ''ETH'')]"
    by code_simp
  have f: "find_cheapest_common_network_fee (e_set_order env1) (e_fees_a env1) (e_fees_b env1)
             ''ETH'' = Some (''ERC20'', 1 / 100)"
    "find_cheapest_common_network_fee (e_set_order env1) (e_fees_b env1) (e_fees_a env1)
             ''ETH'' = Some (''ERC20'', 2 / 100)"
    by code_simp+
  have c: "network_fee_cache ?st ''ETH'' = Some (Some ''ERC20'', 1 / 100)"
    by code_simp
  have e3: "evaluated ?st ! 3
       = (BtoA, \<lparr>symbol = ''ETH/USDT'', buy_exchange = ''kucoin'', sell_exchange = ''binance'',
                 profit_pct = 10637 / 1300, base_amount = 20 / 9, buy_price = 45,
                 sell_price = 49, network = Some ''ERC20''\<rparr>)"
    by code_simp
  have p: "estimate_fee_aware_profit_pct 45 49 (20 / 9) (1 / 1000) (1 / 1000) (1 / 100)
             = 10637 / 1300"
    "estimate_fee_aware_profit_pct 45 49 (20 / 9) (1 / 1000) (1 / 1000) (2 / 100)
             \<noteq> 10637 / 1300"
    by code_simp+
  have d: "distinct (map snd (fee_lookups ?st))"
    using fee_lookup_once_per_base [where env = env1 and s_pass = "?st"] h by blast
  have k: "lookup_network_fee env1 BtoA ''ETH'' ?st = (?st, (Some ''ERC20'', 1 / 100))"
    using fee_lookup_once_per_base
            [where st = "?st" and b = "''ETH''" and e = "(Some ''ERC20'', 1 / 100)"
               and env = env1] c
    by blast
  have ci: "cache_inv env1 initial_state"
    by (simp add: cache_inv_def initial_state_def)
  have s1: "size_and_fill (min_notional_usd (cfg env1)) (asks (level_book 50 49))
              (bids (level_book 45 44)) = Inr (Some ((50, 2), (44, 2)))"
    by code_simp
  have s2: "size_and_fill (min_notional_usd (cfg env1)) (asks (level_book 45 44))
              (bids (level_book 50 49)) = Inr (Some ((45, 20 / 9), (49, 20 / 9)))"
    by code_simp
  have ne: "asks (level_book 50 49) \<noteq> []" "bids (level_book 45 44) \<noteq> []"
    "asks (level_book 45 44) \<noteq> []" "bids (level_book 50 49) \<noteq> []"
    by (simp_all add: level_book_def)
  have fe: "forward_entry env1 ''ETH'' = (Some ''ERC20'', 1 / 100)"
    using f(1) by (simp add: forward_entry_def fee_entry_def)
  have ids: "ex_a_id env1 = ''binance''" "ex_b_id env1 = ''kucoin''"
    by (simp_all add: env1_def)
  have i0: "fee_lookups initial_state = []" "evaluated initial_state = []"
    "network_fee_cache initial_state ''ETH'' = None"
    by (simp_all add: initial_state_def)
  have m: "(0::real) < min 2 2" "min (2::real) 2 = 2" "min (20 / 9 :: real) (20 / 9) = 20 / 9"
    by simp_all
  have fw: "\<exists>st'. forward_direction env1 ''ETH/USDT'' ''ETH'' (level_book 50 49) (level_book 45 44)
               (1 / 1000) (1 / 1000) initial_state = Inr st'
          \<and> fee_lookups st' = [(AtoB, ''ETH'')]
          \<and> network_fee_cache st' ''ETH'' = Some (Some ''ERC20'', 1 / 100)
          \<and> evaluated st'
              = [(AtoB, \<lparr>symbol = ''ETH/USDT'', buy_exchange = ''binance'',
                         sell_exchange = ''kucoin'',
                         profit_pct = estimate_fee_aware_profit_pct 50 44 2 (1 / 1000) (1 / 1000)
                                        (1 / 100),
                         base_amount = 2, buy_price = 50, sell_price = 44,
                         network = Some ''ERC20''\<rparr>),
                 (BtoA, \<lparr>symbol = ''ETH/USDT'', buy_exchange = ''kucoin'',
                         sell_exchange = ''binance'',
                         profit_pct = estimate_fee_aware_profit_pct 45 49 (20 / 9) (1 / 1000)
                                        (1 / 1000) (1 / 100),
                         base_amount = 20 / 9, buy_price = 45, sell_price = 49,
                         network = Some ''ERC20''\<rparr>)]"
    using fee_lookup_once_per_base
            [where env = env1 and st = initial_state and b = "''ETH''"
               and ob_a = "level_book 50 49" and ob_b = "level_book 45 44"
               and fa = 50 and ff = 2 and ga = 44 and gf = 2
               and ba = 45 and bf = "20 / 9" and sa = 49 and sf = "20 / 9"
               and symb = "''ETH/USDT''" and ta = "1 / 1000" and tb = "1 / 1000",
             THEN conjunct2, THEN conjunct2, THEN conjunct2, THEN conjunct1]
          ci s1 s2 ne m(1)
    by (simp add: fe ids i0 m(2,3)) blast
  have rv: "reverse_direction env1 ''ETH/USDT'' ''ETH'' (level_book 50 49) (level_book 45 44)
         (1 / 1000) (1 / 1000) ?st
       = Inr (evaluate_and_record env1 BtoA ''ETH/USDT'' ''ETH'' 45 49 (20 / 9)
                (1 / 1000) (1 / 1000) ?st)"
    using fee_lookup_once_per_base
            [where env = env1 and st = "?st" and ob_a = "level_book 50 49"
               and ob_b = "level_book 45 44" and ba = 45 and bf = "20 / 9" and sa = 49
               and sf = "20 / 9" and symb = "''ETH/USDT''" and b = "''ETH''"
               and ta = "1 / 1000" and tb = "1 / 1000",
             THEN conjunct2, THEN conjunct1]
          s2 ne
    by (simp add: m(3))
  have rl: "fee_lookups (evaluate_and_record env1 BtoA ''ETH/USDT'' ''ETH'' 45 49 (20 / 9)
                (1 / 1000) (1 / 1000) ?st) = [(AtoB, ''BTC''), (AtoB, ''ETH'')]"
    using fee_lookup_once_per_base
            [where st = "?st" and b = "''ETH''" and e = "(Some ''ERC20'', 1 / 100)"
               and env = env1 and symb = "''ETH/USDT''" and ba = 45 and sa = 49
               and amt = "20 / 9" and ta = "1 / 1000" and tb = "1 / 1000",
             THEN conjunct1] c l
    by simp
  have ro: "evaluate_and_record env1 BtoA ''ETH/USDT'' ''ETH'' 45 49 (20 / 9) (1 / 1000)
              (1 / 1000) ?st = ?st
       \<or> (\<exists>ba bf sa sf.
             evaluate_and_record env1 BtoA ''ETH/USDT'' ''ETH'' 45 49 (20 / 9) (1 / 1000)
               (1 / 1000) ?st
             = evaluate_and_record env1 BtoA ''ETH/USDT'' ''ETH'' ba sa (min bf sf) (1 / 1000)
                 (1 / 1000) ?st)"
    using fee_lookup_once_per_base
            [where env = env1 and st = "?st" and ob_a = "level_book 50 49"
               and ob_b = "level_book 45 44" and symb = "''ETH/USDT''" and b = "''ETH''"
               and ta = "1 / 1000" and tb = "1 / 1000",
             THEN conjunct2, THEN conjunct2, THEN conjunct1] rv
    by blast
  let ?sl = "projr (scan_loop env1 initial_state [''ETH/USDT''])"
  have "\<not> isl (scan_loop env1 initial_state [''ETH/USDT''])" by code_simp
  then have hl: "scan_loop env1 initial_state [''ETH/USDT''] = Inr ?sl"
    by (cases "scan_loop env1 initial_state [''ETH/USDT'']") simp_all
  have ll: "fee_lookups ?sl = [(AtoB, ''ETH'')]"
    by code_simp
  have dl: "distinct (map snd (fee_lookups ?sl))"
    using fee_lookup_once_per_base
            [where env = env1 and syms = "[''ETH/USDT'']" and s_loop = "?sl"] hl
    by blast
  from h l d f c e3 p k ci fw rv rl ro hl ll dl show ?thesis by (intro conjI)
qed

lemma forward_entry_None:
  "find_cheapest_common_network_fee (e_set_order env) (e_fees_a env) (e_fees_b env) b = None
     \<Longrightarrow> forward_entry env b = (None, 0)"
  by (simp add: forward_entry_def fee_entry_def)

text \<open>
  Claim C9. When the forward call finds no common network for a base asset that is not yet
  cached, the end of the forward direction caches (no network, fee 0) for it, still computes
  the profit, with a withdrawal fee of exactly 0, and records the Opportunity, whose network
  is absent, if that profit reaches the minimum. After a scan pass, every Opportunity that
  was evaluated, in either direction, for a base asset without a common network has the
  cache entry (no network, 0), carries no network, has the profit computed with the
  withdrawal fee 0, and is recorded exactly when that profit reaches the minimum.
\<close>

theorem missing_network_costs_nothing:
  "(network_fee_cache st b = None
      \<and> find_cheapest_common_network_fee (e_set_order env) (e_fees_a env) (e_fees_b env) b = None
    \<longrightarrow> network_fee_cache (evaluate_and_record env AtoB symb b ba sa amt ta tb st) b
          = Some (None, 0)
        \<and> evaluated (evaluate_and_record env AtoB symb b ba sa amt ta tb st)
          = evaluated st @
              [(AtoB, \<lparr>symbol = symb, buy_exchange = ex_a_id env, sell_exchange = ex_b_id env,
                        profit_pct = estimate_fee_aware_profit_pct ba sa amt ta tb 0,
                        base_amount = amt, buy_price = ba, sell_price = sa, network = None\<rparr>)]
        \<and> opportunities (evaluate_and_record env AtoB symb b ba sa amt ta tb st)
          = (if min_profit_pct (cfg env) \<le> estimate_fee_aware_profit_pct ba sa amt ta tb 0
             then opportunities st @
                    [\<lparr>symbol = symb, buy_exchange = ex_a_id env, sell_exchange = ex_b_id env,
                      profit_pct = estimate_fee_aware_profit_pct ba sa amt ta tb 0,
                      base_amount = amt, buy_price = ba, sell_price = sa, network = None\<rparr>]
             else opportunities st))
   \<and> (scan_pass env = Inr st1 \<longrightarrow>
        (\<forall>x\<in>set (evaluated st1).
           find_cheapest_common_network_fee (e_set_order env) (e_fees_a env) (e_fees_b env)
             (base_of (symbol (snd x))) = None
           \<longrightarrow> network_fee_cache st1 (base_of (symbol (snd x))) = Some (None, 0)
               \<and> network (snd x) = None
               \<and> profit_from env (fst x) (snd x) 0
               \<and> (snd x \<in> set (opportunities st1)
                    \<longleftrightarrow> min_profit_pct (cfg env) \<le> profit_pct (snd x))))"
proof (intro conjI impI)
  assume a: "network_fee_cache st b = None
      \<and> find_cheapest_common_network_fee (e_set_order env) (e_fees_a env) (e_fees_b env) b = None"
  then have fe: "forward_entry env b = (None, 0)" by (simp add: forward_entry_None)
  from a have lk: "lookup_network_fee env AtoB b st =
     (st\<lparr>network_fee_cache := (network_fee_cache st)(b \<mapsto> (None, 0)),
         fee_lookups := fee_lookups st @ [(AtoB, b)]\<rparr>, (None, 0))"
    using lookup_forward_miss [of st b env] fe by simp
  show "network_fee_cache (evaluate_and_record env AtoB symb b ba sa amt ta tb st) b
          = Some (None, 0)"
    unfolding evaluate_and_record_def lk by (simp add: Let_def)
  show "evaluated (evaluate_and_record env AtoB symb b ba sa amt ta tb st)
          = evaluated st @
              [(AtoB, \<lparr>symbol = symb, buy_exchange = ex_a_id env, sell_exchange = ex_b_id env,
                        profit_pct = estimate_fee_aware_profit_pct ba sa amt ta tb 0,
                        base_amount = amt, buy_price = ba, sell_price = sa, network = None\<rparr>)]"
    unfolding evaluate_and_record_def lk by (simp add: Let_def)
  show "opportunities (evaluate_and_record env AtoB symb b ba sa amt ta tb st)
          = (if min_profit_pct (cfg env) \<le> estimate_fee_aware_profit_pct ba sa amt ta tb 0
             then opportunities st @
                    [\<lparr>symbol = symb, buy_exchange = ex_a_id env, sell_exchange = ex_b_id env,
                      profit_pct = estimate_fee_aware_profit_pct ba sa amt ta tb 0,
                      base_amount = amt, buy_price = ba, sell_price = sa, network = None\<rparr>]
             else opportunities st)"
    unfolding evaluate_and_record_def lk by (simp add: Let_def)
next
  assume p: "scan_pass env = Inr st1"
  from scan_pass_inv [OF p] have ci: "cache_inv env st1" and ei: "eval_inv env st1"
    by blast+
  show "\<forall>x\<in>set (evaluated st1).
           find_cheapest_common_network_fee (e_set_order env) (e_fees_a env) (e_fees_b env)
             (base_of (symbol (snd x))) = None
           \<longrightarrow> network_fee_cache st1 (base_of (symbol (snd x))) = Some (None, 0)
               \<and> network (snd x) = None
               \<and> profit_from env (fst x) (snd x) 0
               \<and> (snd x \<in> set (opportunities st1)
                    \<longleftrightarrow> min_profit_pct (cfg env) \<le> profit_pct (snd x))"
  proof (intro ballI impI)
    fix x assume x: "x \<in> set (evaluated st1)"
      and n: "find_cheapest_common_network_fee (e_set_order env) (e_fees_a env) (e_fees_b env)
             (base_of (symbol (snd x))) = None"
    let ?b = "base_of (symbol (snd x))"
    have fe: "forward_entry env ?b = (None, 0)" by (rule forward_entry_None [OF n])
    from ei x have c: "network_fee_cache st1 ?b \<noteq> None"
      and nw: "network (snd x) = fst (forward_entry env ?b)"
      and pf: "profit_from env (fst x) (snd x) (snd (forward_entry env ?b))"
      unfolding eval_inv_def by blast+
    from c ci have "network_fee_cache st1 ?b = Some (forward_entry env ?b)"
      unfolding cache_inv_def by auto
    moreover have "snd x \<in> set (opportunities st1)
                    \<longleftrightarrow> min_profit_pct (cfg env) \<le> profit_pct (snd x)"
    proof -
      have "opportunities st1
           = filter (\<lambda>opp. min_profit_pct (cfg env) \<le> profit_pct opp) (map snd (evaluated st1))"
        using ei unfolding eval_inv_def by blast
      then show ?thesis using x by simp
    qed
    ultimately show "network_fee_cache st1 ?b = Some (None, 0)
               \<and> network (snd x) = None
               \<and> profit_from env (fst x) (snd x) 0
               \<and> (snd x \<in> set (opportunities st1)
                    \<longleftrightarrow> min_profit_pct (cfg env) \<le> profit_pct (snd x))"
      using nw pf unfolding fe by simp
  qed
qed

theorem missing_network_costs_nothing_witness:
  "scan_pass env1 = Inr (projr (scan_pass env1))
   \<and> find_cheapest_common_network_fee (e_set_order env1) (e_fees_a env1) (e_fees_b env1) ''BTC''
       = None
   \<and> hd (evaluated (projr (scan_pass env1)))
       = (AtoB, \<lparr>symbol = ''BTC/USDT'', buy_exchange = ''binance'', sell_exchange = ''kucoin'',
                 profit_pct = 890 / 91, base_amount = 1, buy_price = 100, sell_price = 110,
                 network = None\<rparr>)
   \<and> estimate_fee_aware_profit_pct 100 110 1 (1 / 1000) (1 / 1000) 0 = 890 / 91
   \<and> network_fee_cache (projr (scan_pass env1)) ''BTC'' = Some (None, 0)
   \<and> hd (opportunities (projr (scan_pass env1))) = snd (hd (evaluated (projr (scan_pass env1))))
   \<and> network_fee_cache
         (evaluate_and_record env1 AtoB ''BTC/USDT'' ''BTC'' 100 110 1 (1 / 1000) (1 / 1000)
            initial_state) ''BTC'' = Some (None, 0)"
proof -
  have "\<not> isl (scan_pass env1)" by code_simp
  then have h: "scan_pass env1 = Inr (projr (scan_pass env1))"
    by (cases "scan_pass env1") simp_all
  have n: "find_cheapest_common_network_fee (e_set_order env1) (e_fees_a env1) (e_fees_b env1)
             ''BTC'' = None"
    by code_simp
  have e: "hd (evaluated (projr (scan_pass env1)))
       = (AtoB, \<lparr>symbol = ''BTC/USDT'', buy_exchange = ''binance'', sell_exchange = ''kucoin'',
                 profit_pct = 890 / 91, base_amount = 1, buy_price = 100, sell_price = 110,
                 network = None\<rparr>)"
    by code_simp
  have m: "hd (evaluated (projr (scan_pass env1))) \<in> set (evaluated (projr (scan_pass env1)))"
    by code_simp
  have bo: "base_of (symbol (snd (hd (evaluated (projr (scan_pass env1)))))) = ''BTC''"
    by code_simp
  have p: "estimate_fee_aware_profit_pct 100 110 1 (1 / 1000) (1 / 1000) 0 = 890 / 91"
    by code_simp
  have o: "hd (opportunities (projr (scan_pass env1)))
           = snd (hd (evaluated (projr (scan_pass env1))))"
    by code_simp
  have i: "network_fee_cache initial_state ''BTC'' = None"
    by (simp add: initial_state_def)
  from missing_network_costs_nothing [of _ _ env1 _ _ _ _ _ _ "projr (scan_pass env1)",
         THEN conjunct2, rule_format, OF h m] n bo
  have c: "network_fee_cache (projr (scan_pass env1)) ''BTC'' = Some (None, 0)" by simp
  from missing_network_costs_nothing [of initial_state "''BTC''" env1 "''BTC/USDT''" 100 110 1
         "1 / 1000" "1 / 1000", THEN conjunct1, rule_format, OF conjI [OF i n]]
  have s: "network_fee_cache
         (evaluate_and_record env1 AtoB ''BTC/USDT'' ''BTC'' 100 110 1 (1 / 1000) (1 / 1000)
            initial_state) ''BTC'' = Some (None, 0)"
    by (rule conjunct1)
  from h n e p c o s show ?thesis by (intro conjI)
qed

end
